theory Spec2Isabelle
  imports Main "HOL-Library.Char_ord" "HOL-Library.List_Lexorder" "HOL-Library.AList"
    "HOL-Library.Multiset"
begin

text \<open>
  A shallow embedding of goa's design package (\<^verbatim>\<open>design/api.go\<close>): the definition graph
  of an API (versions, resources, actions, routes, responses, media types), the sorted
  enumerations over it, path composition, wildcard extraction, response merging, the
  finalization pass and the canonical media type identifier.

  Go strings are byte sequences and are modelled as \<^typ>\<open>string\<close>, a list of 8-bit
  characters. A Go map is an association list read with \<^const>\<open>map_of\<close>; its order stands
  for the order in which the runtime happens to range over the map. A pointer that may be
  nil is an \<^typ>\<open>'a option\<close>. A panic is a value of the type below, and so is the exhaustion
  of the fuel that bounds the recursion over parent resources.
\<close>

datatype abort = NilDereference | NilMapAssignment | OutOfFuel

section \<open>Wildcard extraction\<close>

text \<open>
  \<^verbatim>\<open>WildcardRegex = regexp.MustCompile(`/(?::|\*)([a-zA-Z0-9_]+)`)\<close>.
  Paths are Go strings, that is byte sequences; every character the expression names is
  ASCII, and no byte of a multi-byte UTF-8 sequence is ASCII, so matching bytes is matching
  runes. The character class of the capture group:
\<close>

definition isWordChar :: "char \<Rightarrow> bool" where
  "isWordChar c \<longleftrightarrow>
     (CHR ''a'' \<le> c \<and> c \<le> CHR ''z'') \<or> (CHR ''A'' \<le> c \<and> c \<le> CHR ''Z'') \<or>
     (CHR ''0'' \<le> c \<and> c \<le> CHR ''9'') \<or> c = CHR ''_''"

text \<open>
  \<^verbatim>\<open>WildcardRegex.FindAllStringSubmatch(path, -1)\<close>, keeping of every match its capture
  group 1. Go's matcher reports the leftmost match, the \<^verbatim>\<open>+\<close> is greedy, and matches do
  not overlap: the search resumes where the last match ended. A slash and a marker with no
  word character behind them match nothing, and the search resumes at the marker.
\<close>

function FindAllStringSubmatch :: "string \<Rightarrow> string list" where
  "FindAllStringSubmatch [] = []"
| "FindAllStringSubmatch [c] = []"
| "FindAllStringSubmatch (c # d # ds) =
    (if c = CHR ''/'' \<and> (d = CHR '':'' \<or> d = CHR ''*'') \<and> takeWhile isWordChar ds \<noteq> []
     then takeWhile isWordChar ds # FindAllStringSubmatch (dropWhile isWordChar ds)
     else FindAllStringSubmatch (d # ds))"
  by pat_completeness auto
termination
  by (relation "measure length") (auto intro: le_imp_less_Suc le_SucI length_dropWhile_le)

text \<open>\<^verbatim>\<open>func ExtractWildcards(path string) []string\<close>: the capture group of every match.\<close>

definition ExtractWildcards :: "string \<Rightarrow> string list" where
  "ExtractWildcards path = FindAllStringSubmatch path"

text \<open>
  The reading of the claim, position by position: at every position of the path, from left
  to right, where a slash is followed by a colon or a star, the maximal run of word
  characters behind the marker is a wildcard name, unless that run is empty.
\<close>

fun wildcard_runs :: "string \<Rightarrow> string list" where
  "wildcard_runs [] = []"
| "wildcard_runs [c] = []"
| "wildcard_runs (c # d # ds) =
    (if c = CHR ''/'' \<and> (d = CHR '':'' \<or> d = CHR ''*'') \<and> takeWhile isWordChar ds \<noteq> []
     then [takeWhile isWordChar ds] else []) @ wildcard_runs (d # ds)"


section \<open>Attributes and responses\<close>

text \<open>
  Modelled from the spec: \<^verbatim>\<open>AttributeDefinition\<close>, \<^verbatim>\<open>DataType\<close>, \<^verbatim>\<open>Object\<close>,
  \<^verbatim>\<open>String\<close>, \<^verbatim>\<open>ToObject\<close> and \<^verbatim>\<open>DupAtt\<close> are declared outside the files under
  \<^verbatim>\<open>src/\<close>. The spec describes an attribute as a typed field node, possibly an object with
  named children, that carries a set of non-zero markers. \<^verbatim>\<open>ToObject\<close> gives the children of
  an object and the nil map for any other type; \<^verbatim>\<open>DupAtt\<close> gives a duplicate, which in a
  model of values is the attribute itself. The field \<^verbatim>\<open>Type\<close> holds an interface value
  and may be nil.
\<close>

datatype Kind = BooleanKind | IntegerKind | NumberKind | StringKind

datatype DataType = Primitive Kind | Object "(string \<times> AttributeDefinition) list"
  and AttributeDefinition =
    AttributeDefinition (att_Type: "DataType option")
      (att_NonZeroAttributes: "(string \<times> bool) list")

definition String :: DataType where
  "String = Primitive StringKind"

fun ToObject :: "DataType \<Rightarrow> (string \<times> AttributeDefinition) list option" where
  "ToObject (Object obj) = Some obj"
| "ToObject (Primitive k) = None"

text \<open>
  \<^verbatim>\<open>att.Type.ToObject()\<close>: a method call on the interface value, which panics when the
  interface is nil.
\<close>

definition Type_ToObject ::
  "AttributeDefinition \<Rightarrow> abort + (string \<times> AttributeDefinition) list option" where
  "Type_ToObject att =
     (case att_Type att of None \<Rightarrow> Inl NilDereference | Some t \<Rightarrow> Inr (ToObject t))"

definition DupAtt :: "AttributeDefinition \<Rightarrow> AttributeDefinition" where
  "DupAtt att = att"

text \<open>The children of a possibly nil attribute: those of its object, none otherwise.\<close>

definition att_object :: "AttributeDefinition option \<Rightarrow> (string \<times> AttributeDefinition) list" where
  "att_object att =
     (case att of
        None \<Rightarrow> []
      | Some a \<Rightarrow>
          (case att_Type a of
             None \<Rightarrow> []
           | Some t \<Rightarrow> (case ToObject t of None \<Rightarrow> [] | Some obj \<Rightarrow> obj)))"

text \<open>The names of the children of a possibly nil attribute: the keys of its object.\<close>

definition att_names :: "AttributeDefinition option \<Rightarrow> string set" where
  "att_names att = fst ` set (att_object att)"

text \<open>The child of a possibly nil attribute under a name, nil when there is none.\<close>

definition att_child :: "AttributeDefinition option \<Rightarrow> string \<Rightarrow> AttributeDefinition option" where
  "att_child att n = map_of (att_object att) n"

text \<open>
  \<^verbatim>\<open>ResponseDefinition\<close>. The fields \<^verbatim>\<open>Parent\<close> and \<^verbatim>\<open>Metadata\<close> are read by no
  function modelled here and are left out.
\<close>

record ResponseDefinition =
  resp_Name :: string
  resp_Status :: int
  resp_Description :: string
  resp_Type :: "DataType option"
  resp_MediaType :: string
  resp_Headers :: "AttributeDefinition option"
  resp_Standard :: bool
  resp_Global :: bool

text \<open>
  The loop of \<^verbatim>\<open>Merge\<close> over the headers of the other response:
  \<^verbatim>\<open>for n, h := range otherHeaders { if _, ok := headers[n]; !ok { headers[n] = h } }\<close>.
\<close>

fun merge_headers ::
  "(string \<times> AttributeDefinition) list \<Rightarrow> (string \<times> AttributeDefinition) list \<Rightarrow>
     (string \<times> AttributeDefinition) list" where
  "merge_headers [] headers = headers"
| "merge_headers ((n, h) # rest) headers =
     (if map_of headers n = None then merge_headers rest (AList.update n h headers)
      else merge_headers rest headers)"

text \<open>
  \<^verbatim>\<open>func (r *ResponseDefinition) Merge(other *ResponseDefinition)\<close>. The receiver is
  updated in place; the model returns the updated receiver. When the receiver's headers
  are not an object, \<^verbatim>\<open>headers\<close> is the nil map, and since \<^verbatim>\<open>otherHeaders\<close> is not
  empty there, the first round of the loop assigns into the nil map and panics.
\<close>

definition Merge :: "ResponseDefinition \<Rightarrow> ResponseDefinition option \<Rightarrow> abort + ResponseDefinition" where
  "Merge r other =
     (case other of
        None \<Rightarrow> Inr r
      | Some ot \<Rightarrow>
          (let r1 = (if resp_Name r = [] then r\<lparr>resp_Name := resp_Name ot\<rparr> else r);
               r2 = (if resp_Status r1 = 0 then r1\<lparr>resp_Status := resp_Status ot\<rparr> else r1);
               r3 = (if resp_Description r2 = []
                     then r2\<lparr>resp_Description := resp_Description ot\<rparr> else r2);
               r4 = (if resp_MediaType r3 = []
                     then r3\<lparr>resp_MediaType := resp_MediaType ot\<rparr> else r3)
           in case resp_Headers ot of
                None \<Rightarrow> Inr r4
              | Some oh \<Rightarrow>
                  (case Type_ToObject oh of
                     Inl e \<Rightarrow> Inl e
                   | Inr None \<Rightarrow> Inr r4
                   | Inr (Some otherHeaders) \<Rightarrow>
                       if length otherHeaders > 0 then
                         (let rh = (case resp_Headers r4 of
                                      None \<Rightarrow> AttributeDefinition (Some (Object [])) []
                                    | Some a \<Rightarrow> a)
                          in case Type_ToObject rh of
                               Inl e \<Rightarrow> Inl e
                             | Inr None \<Rightarrow> Inl NilMapAssignment
                             | Inr (Some headers) \<Rightarrow>
                                 Inr (r4\<lparr>resp_Headers :=
                                   Some (AttributeDefinition
                                     (Some (Object (merge_headers otherHeaders headers)))
                                     (att_NonZeroAttributes rh))\<rparr>))
                       else Inr r4)))"

text \<open>
  The four scalar fields after a merge, each taken from the other response when the
  receiver's is the empty string or zero.
\<close>

definition merge_scalars :: "ResponseDefinition \<Rightarrow> ResponseDefinition \<Rightarrow> ResponseDefinition" where
  "merge_scalars r ot = r\<lparr>
     resp_Name := (if resp_Name r = [] then resp_Name ot else resp_Name r),
     resp_Status := (if resp_Status r = 0 then resp_Status ot else resp_Status r),
     resp_Description :=
       (if resp_Description r = [] then resp_Description ot else resp_Description r),
     resp_MediaType := (if resp_MediaType r = [] then resp_MediaType ot else resp_MediaType r)\<rparr>"

text \<open>
  The pairs on which \<^verbatim>\<open>Merge\<close> panics: the other response has a header attribute whose
  type is nil; or it has at least one header and the receiver has a header attribute whose
  type is nil or is not an object.
\<close>

definition Merge_panics :: "ResponseDefinition \<Rightarrow> ResponseDefinition \<Rightarrow> bool" where
  "Merge_panics r ot \<longleftrightarrow>
     (case resp_Headers ot of
        None \<Rightarrow> False
      | Some oh \<Rightarrow>
          att_Type oh = None \<or>
          (att_object (Some oh) \<noteq> [] \<and>
           (case resp_Headers r of
              None \<Rightarrow> False
            | Some a \<Rightarrow>
                (case att_Type a of
                   None \<Rightarrow> True
                 | Some t \<Rightarrow> ToObject t = None))))"

text \<open>Two responses of the scenario in the spec, with headers added.\<close>

definition example_resource_response :: ResponseDefinition where
  "example_resource_response =
     \<lparr>resp_Name = ''OK'', resp_Status = 0, resp_Description = [], resp_Type = None,
      resp_MediaType = [],
      resp_Headers = Some (AttributeDefinition
        (Some (Object [(''Location'', AttributeDefinition (Some String) [])])) []),
      resp_Standard = False, resp_Global = False\<rparr>"

definition example_global_response :: ResponseDefinition where
  "example_global_response =
     \<lparr>resp_Name = ''OK'', resp_Status = 200, resp_Description = ''Success'', resp_Type = None,
      resp_MediaType = ''application/json'',
      resp_Headers = Some (AttributeDefinition
        (Some (Object [(''Location'', AttributeDefinition (Some (Primitive IntegerKind)) []),
                       (''ETag'', AttributeDefinition (Some String) [])])) []),
      resp_Standard = False, resp_Global = True\<rparr>"

text \<open>A response whose header attribute is a string, not an object.\<close>

definition example_string_headers_response :: ResponseDefinition where
  "example_string_headers_response =
     \<lparr>resp_Name = ''OK'', resp_Status = 0, resp_Description = [], resp_Type = None,
      resp_MediaType = [],
      resp_Headers = Some (AttributeDefinition (Some String) []),
      resp_Standard = False, resp_Global = False\<rparr>"


section \<open>Path cleaning\<close>

text \<open>
  The two library functions that compose paths are Go's \<^verbatim>\<open>path.Join\<close> (with
  \<^verbatim>\<open>path.Clean\<close>) and httprouter's \<^verbatim>\<open>CleanPath\<close>. Both read their argument from left to
  right, one path element at a time, and write to an output buffer that a \<^verbatim>\<open>..\<close> element
  cuts back to the last slash. The models keep the output written so far as a string and
  the unread rest of the argument as a string.
\<close>

text \<open>An element ends where the path ends or a slash stands.\<close>

fun at_element_end :: "string \<Rightarrow> bool" where
  "at_element_end [] = True"
| "at_element_end (c # cs) = (c = CHR ''/'')"

text \<open>
  The backtracking loop shared by both cleaners,
  \<^verbatim>\<open>for out.w > low && out.index(out.w) != '/' { out.w-- }\<close>, on the write index.
\<close>

fun backtrack_index :: "nat \<Rightarrow> string \<Rightarrow> nat \<Rightarrow> nat" where
  "backtrack_index low out 0 = 0"
| "backtrack_index low out (Suc w) =
     (if Suc w > low \<and> out ! Suc w \<noteq> CHR ''/'' then backtrack_index low out w else Suc w)"

text \<open>\<^verbatim>\<open>out.w--\<close> and then the loop; the buffer is cut at the index reached.\<close>

definition backtrack :: "nat \<Rightarrow> string \<Rightarrow> string" where
  "backtrack low out = take (backtrack_index low out (length out - 1)) out"

text \<open>
  The loop of \<^verbatim>\<open>path.Clean\<close>: \<^verbatim>\<open>rooted\<close> and \<^verbatim>\<open>dotdot\<close> as in the source, \<open>out\<close> the
  buffer, and the unread rest of the path.
\<close>

function Clean_loop :: "bool \<Rightarrow> nat \<Rightarrow> string \<Rightarrow> string \<Rightarrow> string" where
  "Clean_loop rooted dotdot out [] = out"
| "Clean_loop rooted dotdot out (c # cs) =
     (if c = CHR ''/'' then Clean_loop rooted dotdot out cs
      else if c = CHR ''.'' \<and> at_element_end cs then Clean_loop rooted dotdot out cs
      else if c = CHR ''.'' \<and> cs \<noteq> [] \<and> hd cs = CHR ''.'' \<and> at_element_end (tl cs) then
        (if length out > dotdot then Clean_loop rooted dotdot (backtrack dotdot out) (tl cs)
         else if \<not> rooted then
           (let out' = (if length out > 0 then out @ ''/'' else out) @ ''..''
            in Clean_loop rooted (length out') out' (tl cs))
         else Clean_loop rooted dotdot out (tl cs))
      else
        (let out' = (if (rooted \<and> length out \<noteq> 1) \<or> (\<not> rooted \<and> length out \<noteq> 0)
                     then out @ ''/'' else out)
         in Clean_loop rooted dotdot (out' @ takeWhile (\<lambda>x. x \<noteq> CHR ''/'') (c # cs))
              (dropWhile (\<lambda>x. x \<noteq> CHR ''/'') (c # cs))))"
  by pat_completeness auto
termination
proof (relation "measure (\<lambda>(rooted, dotdot, out, rest). length rest)")
  show "wf (measure (\<lambda>(rooted, dotdot, out, rest). length rest))" by simp
qed (auto intro: le_imp_less_Suc length_dropWhile_le simp: less_Suc_eq_le)

text \<open>\<^verbatim>\<open>func Clean(path string) string\<close> of package \<^verbatim>\<open>path\<close>.\<close>

definition Clean :: "string \<Rightarrow> string" where
  "Clean path =
     (if path = [] then ''.''
      else
        (let rooted = (hd path = CHR ''/'');
             out = (if rooted then Clean_loop True 1 ''/'' (tl path)
                    else Clean_loop False 0 [] path)
         in if out = [] then ''.'' else out))"

text \<open>\<^verbatim>\<open>strings.Join(elem, "/")\<close>.\<close>

fun join_slash :: "string list \<Rightarrow> string" where
  "join_slash [] = []"
| "join_slash [e] = e"
| "join_slash (e # es) = e @ ''/'' @ join_slash es"

text \<open>
  \<^verbatim>\<open>func Join(elem ...string) string\<close> of package \<^verbatim>\<open>path\<close>: the elements from the first
  non-empty one on are joined with slashes and cleaned; with no non-empty element the
  result is the empty string.
\<close>

fun Join :: "string list \<Rightarrow> string" where
  "Join [] = []"
| "Join (e # es) = (if e \<noteq> [] then Clean (join_slash (e # es)) else Join es)"

text \<open>
  The loop of httprouter's \<^verbatim>\<open>CleanPath\<close>. The buffer always starts with a slash; the
  result is the flag \<^verbatim>\<open>trailing\<close> and the buffer.
\<close>

function CleanPath_loop :: "bool \<Rightarrow> string \<Rightarrow> string \<Rightarrow> bool \<times> string" where
  "CleanPath_loop trailing out [] = (trailing, out)"
| "CleanPath_loop trailing out (c # cs) =
     (if c = CHR ''/'' then CleanPath_loop trailing out cs
      else if c = CHR ''.'' \<and> cs = [] then CleanPath_loop True out cs
      else if c = CHR ''.'' \<and> hd cs = CHR ''/'' then CleanPath_loop trailing out cs
      else if c = CHR ''.'' \<and> hd cs = CHR ''.'' \<and> at_element_end (tl cs) then
        CleanPath_loop trailing (if length out > 1 then backtrack 1 out else out) (tl cs)
      else
        (let out' = (if length out > 1 then out @ ''/'' else out)
         in CleanPath_loop trailing (out' @ takeWhile (\<lambda>x. x \<noteq> CHR ''/'') (c # cs))
              (dropWhile (\<lambda>x. x \<noteq> CHR ''/'') (c # cs))))"
  by pat_completeness auto
termination
proof (relation "measure (\<lambda>(trailing, out, rest). length rest)")
  show "wf (measure (\<lambda>(trailing, out, rest). length rest))" by simp
qed (auto intro: le_imp_less_Suc length_dropWhile_le simp: less_Suc_eq_le)

text \<open>
  \<^verbatim>\<open>func CleanPath(p string) string\<close> of httprouter: the empty path becomes the root; a
  path that does not start with a slash gets one; a trailing slash is kept.
\<close>

definition CleanPath :: "string \<Rightarrow> string" where
  "CleanPath p =
     (if p = [] then ''/''
      else
        (let n = length p;
             trailing = (n > 2 \<and> last p = CHR ''/'');
             (trailing', out) =
               (if hd p = CHR ''/'' then CleanPath_loop trailing ''/'' (tl p)
                else CleanPath_loop trailing ''/'' p)
         in if trailing' \<and> length out > 1 then out @ ''/'' else out))"


section \<open>The definition graph\<close>

text \<open>
  Resources and actions refer to each other by pointer (an action to its parent resource, a
  route to its parent action), so they live in a store: a pointer to a resource or to an
  action is an address, and an address the store does not hold is the nil pointer. The
  other structs are reached only from their owner and are modelled as values; where the
  owner holds a pointer to them, the pointer may be nil and is an \<^typ>\<open>'a option\<close>. Of
  each struct the fields are kept that some function modelled here reads or writes.
\<close>

type_synonym resource_ptr = nat
type_synonym action_ptr = nat

record APIVersionDefinition =
  ver_Name :: string
  ver_Version :: string
  ver_BasePath :: string
  ver_BaseParams :: "AttributeDefinition option"
  ver_Responses :: "(string \<times> ResponseDefinition option) list"
  ver_DefaultResponses :: "(string \<times> ResponseDefinition option) list"

record RouteDefinition =
  rt_Verb :: string
  rt_Path :: string
  rt_Parent :: action_ptr

record ActionDefinition =
  act_Name :: string
  act_Parent :: resource_ptr
  act_Routes :: "RouteDefinition option list"
  act_Responses :: "(string \<times> ResponseDefinition option) list"
  act_Params :: "AttributeDefinition option"
  act_QueryParams :: "AttributeDefinition option"

record ResourceDefinition =
  res_Name :: string
  res_BasePath :: string
  res_BaseParams :: "AttributeDefinition option"
  res_ParentName :: string
  res_APIVersions :: "string list"
  res_MediaType :: string
  res_Actions :: "(string \<times> action_ptr) list"
  res_CanonicalActionName :: string
  res_Responses :: "(string \<times> ResponseDefinition option) list"

text \<open>
  Modelled from the spec: \<^verbatim>\<open>MediaTypeDefinition\<close> and \<^verbatim>\<open>UserTypeDefinition\<close> are
  declared outside the files under \<^verbatim>\<open>src/\<close>; a media type is identified by a MIME-style
  identifier, a user type by its name.
\<close>

record MediaTypeDefinition =
  mt_Identifier :: string
  mt_TypeName :: string

record UserTypeDefinition =
  ut_TypeName :: string

text \<open>
  \<^verbatim>\<open>APIDefinition\<close>: the embedded pointer to the default version, and the four maps.
\<close>

record APIDefinition =
  api_Default :: "APIVersionDefinition option"
  api_APIVersions :: "(string \<times> APIVersionDefinition option) list"
  api_Resources :: "(string \<times> resource_ptr) list"
  api_Types :: "(string \<times> UserTypeDefinition option) list"
  api_MediaTypes :: "(string \<times> MediaTypeDefinition option) list"

text \<open>
  The state of the program: the global variable \<^verbatim>\<open>Design\<close> and the store of resources
  and actions.
\<close>

record world =
  Design :: APIDefinition
  resources :: "resource_ptr \<Rightarrow> ResourceDefinition option"
  actions :: "action_ptr \<Rightarrow> ActionDefinition option"

text \<open>
  \<^verbatim>\<open>m[k]\<close> on a map of pointers to values: the pointer stored under the key, nil when the
  map has no such key.
\<close>

definition index :: "(string \<times> 'v option) list \<Rightarrow> string \<Rightarrow> 'v option" where
  "index m k = (case map_of m k of None \<Rightarrow> None | Some v \<Rightarrow> v)"

section \<open>Enumeration\<close>

text \<open>
  The loop that ends every enumeration:
  \<^verbatim>\<open>for _, n := range names { if err := it(m[n]); err != nil { return err } }; return nil\<close>.
  A visitor is a closure; what it changes is the state \<open>s\<close>, which it takes and returns
  together with its error (\<open>None\<close> for nil).
\<close>

fun visit :: "('a \<Rightarrow> 's \<Rightarrow> 'e option \<times> 's) \<Rightarrow> 'a list \<Rightarrow> 's \<Rightarrow> 'e option \<times> 's" where
  "visit it [] s = (None, s)"
| "visit it (x # xs) s =
     (case it x s of
        (Some err, s') \<Rightarrow> (Some err, s')
      | (None, s') \<Rightarrow> visit it xs s')"




text \<open>
  \<^verbatim>\<open>IterateVersions\<close> takes the keys from its receiver and the versions from the global
  \<^verbatim>\<open>Design\<close>, whose embedded default version it visits first.
\<close>

definition IterateVersions ::
  "APIDefinition \<Rightarrow> APIDefinition \<Rightarrow> (APIVersionDefinition option \<Rightarrow> 's \<Rightarrow> 'e option \<times> 's) \<Rightarrow>
     's \<Rightarrow> 'e option \<times> 's" where
  "IterateVersions design a it s =
     (let versions = sort (map fst (api_APIVersions a))
      in case it (api_Default design) s of
           (Some err, s') \<Rightarrow> (Some err, s')
         | (None, s') \<Rightarrow> visit (\<lambda>v. it (index (api_APIVersions design) v)) versions s')"


definition IterateActions ::
  "ResourceDefinition \<Rightarrow> (action_ptr option \<Rightarrow> 's \<Rightarrow> 'e option \<times> 's) \<Rightarrow> 's \<Rightarrow> 'e option \<times> 's" where
  "IterateActions r it s =
     (let names = sort (map fst (res_Actions r))
      in visit (\<lambda>n. it (map_of (res_Actions r) n)) names s)"

text \<open>
  The versions in the order \<^verbatim>\<open>Design.IterateVersions\<close> visits them: the default version,
  then the versions of the map by ascending key.
\<close>

definition version_scopes :: "APIDefinition \<Rightarrow> APIVersionDefinition option list" where
  "version_scopes d =
     api_Default d # map (index (api_APIVersions d)) (sort (map fst (api_APIVersions d)))"



text \<open>The entries of a map in the ascending order of their keys (each key once).\<close>

definition entries_by_key :: "(string \<times> 'v) list \<Rightarrow> (string \<times> 'v option) list" where
  "entries_by_key m = map (\<lambda>k. (k, map_of m k)) (sort (map fst m))"


section \<open>Path composition\<close>

text \<open>\<^verbatim>\<open>func (r *RouteDefinition) IsAbsolute() bool\<close>: \<^verbatim>\<open>strings.HasPrefix(r.Path, "//")\<close>.\<close>

definition IsAbsolute :: "RouteDefinition \<Rightarrow> bool" where
  "IsAbsolute r \<longleftrightarrow> take 2 (rt_Path r) = ''//''"

text \<open>
  \<^verbatim>\<open>func (r *ResourceDefinition) Parent() *ResourceDefinition\<close>: the resource that
  \<^verbatim>\<open>Design.Resources\<close> holds under the parent name, nil when the name is empty or not a
  key of the map.
\<close>

definition Parent :: "world \<Rightarrow> ResourceDefinition \<Rightarrow> ResourceDefinition option" where
  "Parent w r =
     (if res_ParentName r \<noteq> [] then
        (case map_of (api_Resources (Design w)) (res_ParentName r) of
           Some parent \<Rightarrow> resources w parent
         | None \<Rightarrow> None)
      else None)"

text \<open>\<^verbatim>\<open>func (r *ResourceDefinition) CanonicalAction() *ActionDefinition\<close>.\<close>

definition CanonicalAction :: "world \<Rightarrow> ResourceDefinition \<Rightarrow> ActionDefinition option" where
  "CanonicalAction w r =
     (let name = (if res_CanonicalActionName r = [] then ''show''
                  else res_CanonicalActionName r)
      in case map_of (res_Actions r) name of
           Some ca \<Rightarrow> actions w ca
         | None \<Rightarrow> None)"

text \<open>
  The resource a route belongs to, as \<^verbatim>\<open>FullPath\<close> finds it: \<^verbatim>\<open>r.Parent.Parent\<close>, when
  neither pointer is nil.
\<close>

definition owning_resource :: "world \<Rightarrow> RouteDefinition \<Rightarrow> ResourceDefinition option" where
  "owning_resource w r =
     (case actions w (rt_Parent r) of
        None \<Rightarrow> None
      | Some a \<Rightarrow> resources w (act_Parent a))"

text \<open>
  \<^verbatim>\<open>func (r *ResourceDefinition) FullPath(version *APIVersionDefinition) string\<close> and
  \<^verbatim>\<open>func (r *RouteDefinition) FullPath(version *APIVersionDefinition) string\<close> call each
  other along the chain of parent resources, which the code does not bound: a chain that
  comes back to a resource recurses for ever. The first argument is the fuel, one unit for
  each call. The version and the route may be nil pointers: the base path of a nil version
  and the path of a nil route cannot be read.
\<close>

fun res_FullPath ::
  "nat \<Rightarrow> world \<Rightarrow> APIVersionDefinition option \<Rightarrow> ResourceDefinition \<Rightarrow> abort + string"
and route_FullPath ::
  "nat \<Rightarrow> world \<Rightarrow> APIVersionDefinition option \<Rightarrow> RouteDefinition option \<Rightarrow> abort + string"
where
  "res_FullPath 0 w version r = Inl OutOfFuel"
| "res_FullPath (Suc n) w version r =
     (case Parent w r of
        Some p \<Rightarrow>
          (case CanonicalAction w p of
             Some ca \<Rightarrow>
               (case act_Routes ca of
                  route0 # _ \<Rightarrow>
                    (case route_FullPath n w version route0 of
                       Inl e \<Rightarrow> Inl e
                     | Inr fp \<Rightarrow> Inr (CleanPath (Join [Join [fp], res_BasePath r])))
                | [] \<Rightarrow> Inr (CleanPath (Join [[], res_BasePath r])))
           | None \<Rightarrow> Inr (CleanPath (Join [[], res_BasePath r])))
      | None \<Rightarrow>
          (case version of
             None \<Rightarrow> Inl NilDereference
           | Some v \<Rightarrow> Inr (CleanPath (Join [ver_BasePath v, res_BasePath r]))))"
| "route_FullPath 0 w version route = Inl OutOfFuel"
| "route_FullPath (Suc n) w version None = Inl NilDereference"
| "route_FullPath (Suc n) w version (Some r) =
     (if IsAbsolute r then Inr (CleanPath (drop 1 (rt_Path r)))
      else
        (case owning_resource w r of
           Some res \<Rightarrow>
             (case res_FullPath n w version res of
                Inl e \<Rightarrow> Inl e
              | Inr base \<Rightarrow> Inr (CleanPath (Join [base, rt_Path r])))
         | None \<Rightarrow> Inr (CleanPath (Join [[], rt_Path r]))))"

text \<open>
  \<^verbatim>\<open>func (r *RouteDefinition) Params(version *APIVersionDefinition) []string\<close>: the
  wildcards of the full path.
\<close>

definition route_Params ::
  "nat \<Rightarrow> world \<Rightarrow> APIVersionDefinition option \<Rightarrow> RouteDefinition option \<Rightarrow> abort + string list" where
  "route_Params n w version route =
     (case route_FullPath n w version route of
        Inl e \<Rightarrow> Inl e
      | Inr fp \<Rightarrow> Inr (ExtractWildcards fp))"


section \<open>Finalization\<close>

text \<open>
  \<^verbatim>\<open>Finalize\<close> works through closures handed to \<^verbatim>\<open>IterateActions\<close> and
  \<^verbatim>\<open>IterateVersions\<close>. The closures change the action in place, so the state they take and
  return is the world. They always return nil; but they may panic, or not return at all
  when a full path does not. A panic unwinds through the enumeration at once, which is what
  the enumeration does with an error, so the model lets the closure return the panic (or
  the exhausted fuel) where Go has an error, and \<^verbatim>\<open>Finalize\<close> turns it back into its own
  outcome.
\<close>

text \<open>The receiver of \<^verbatim>\<open>Merge\<close> as a pointer: a nil receiver is read only if other is not nil.\<close>

definition Merge_ptr ::
  "ResponseDefinition option \<Rightarrow> ResponseDefinition option \<Rightarrow> abort + ResponseDefinition option" where
  "Merge_ptr r other =
     (case other of
        None \<Rightarrow> Inr r
      | Some ot \<Rightarrow>
          (case r of
             None \<Rightarrow> Inl NilDereference
           | Some rv \<Rightarrow> (case Merge rv other of Inl e \<Rightarrow> Inl e | Inr rv' \<Rightarrow> Inr (Some rv'))))"

text \<open>
  Step 1 for one response of the action: the response of that name of the parent resource,
  of the API and of the built-in defaults are merged into it, in this order.
  \<^verbatim>\<open>Design.Responses\<close> and \<^verbatim>\<open>Design.DefaultResponses\<close> are fields of the embedded version.
\<close>

definition merge_response ::
  "world \<Rightarrow> ActionDefinition \<Rightarrow> string \<Rightarrow> ResponseDefinition option \<Rightarrow>
     abort + ResponseDefinition option" where
  "merge_response w a name resp =
     (case resources w (act_Parent a) of
        None \<Rightarrow> Inl NilDereference
      | Some parent \<Rightarrow>
          (case (case map_of (res_Responses parent) name of
                   Some pr \<Rightarrow> Merge_ptr resp pr
                 | None \<Rightarrow> Inr resp) of
             Inl e \<Rightarrow> Inl e
           | Inr resp1 \<Rightarrow>
               (case api_Default (Design w) of
                  None \<Rightarrow> Inl NilDereference
                | Some d \<Rightarrow>
                    (case (case map_of (ver_Responses d) name of
                             Some ar \<Rightarrow> Merge_ptr resp1 ar
                           | None \<Rightarrow> Inr resp1) of
                       Inl e \<Rightarrow> Inl e
                     | Inr resp2 \<Rightarrow>
                         (case map_of (ver_DefaultResponses d) name of
                            Some dr \<Rightarrow> Merge_ptr resp2 dr
                          | None \<Rightarrow> Inr resp2)))))"

text \<open>\<^verbatim>\<open>for name, resp := range a.Responses { ... }\<close>.\<close>

fun merge_responses ::
  "world \<Rightarrow> ActionDefinition \<Rightarrow> (string \<times> ResponseDefinition option) list \<Rightarrow>
     abort + (string \<times> ResponseDefinition option) list" where
  "merge_responses w a [] = Inr []"
| "merge_responses w a ((name, resp) # rest) =
     (case merge_response w a name resp of
        Inl e \<Rightarrow> Inl e
      | Inr resp' \<Rightarrow>
          (case merge_responses w a rest of
             Inl e \<Rightarrow> Inl e
           | Inr rest' \<Rightarrow> Inr ((name, resp') # rest')))"

text \<open>
  Step 2 for one wildcard. With parameters that are not an object, \<^verbatim>\<open>o\<close> is the nil map:
  no name is found in it and the assignment panics.
\<close>

definition add_wildcard :: "string \<Rightarrow> ActionDefinition \<Rightarrow> abort + ActionDefinition" where
  "add_wildcard wc a =
     (case act_Params a of
        Some all \<Rightarrow>
          (case Type_ToObject all of
             Inl e \<Rightarrow> Inl e
           | Inr None \<Rightarrow> Inl NilMapAssignment
           | Inr (Some obj) \<Rightarrow>
               if wc \<in> set (map fst obj) then Inr a
               else Inr (a\<lparr>act_Params := Some (AttributeDefinition
                      (Some (Object (AList.update wc (AttributeDefinition (Some String) []) obj)))
                      (att_NonZeroAttributes all))\<rparr>))
      | None \<Rightarrow>
          Inr (a\<lparr>act_Params := Some (AttributeDefinition
                 (Some (Object [(wc, AttributeDefinition (Some String) [])])) [])\<rparr>))"

text \<open>\<^verbatim>\<open>for _, wc := range wcs { ... }\<close>.\<close>

fun add_wildcards :: "string list \<Rightarrow> ActionDefinition \<Rightarrow> abort + ActionDefinition" where
  "add_wildcards [] a = Inr a"
| "add_wildcards (wc # wcs) a =
     (case add_wildcard wc a of Inl e \<Rightarrow> Inl e | Inr a' \<Rightarrow> add_wildcards wcs a')"

text \<open>
  The closure of step 2, for the action at address \<open>p\<close> and one of its routes: the
  wildcards of the route's full path under the version are added to the action.
\<close>

definition create_implicit_params ::
  "nat \<Rightarrow> action_ptr \<Rightarrow> RouteDefinition option \<Rightarrow> APIVersionDefinition option \<Rightarrow> world \<Rightarrow>
     abort option \<times> world" where
  "create_implicit_params n p r ver w =
     (case route_FullPath n w ver r of
        Inl e \<Rightarrow> (Some e, w)
      | Inr fp \<Rightarrow>
          (case actions w p of
             None \<Rightarrow> (Some NilDereference, w)
           | Some a \<Rightarrow>
               (case add_wildcards (ExtractWildcards fp) a of
                  Inl e \<Rightarrow> (Some e, w)
                | Inr a' \<Rightarrow> (None, w\<lparr>actions := (actions w)(p \<mapsto> a')\<rparr>))))"

text \<open>\<^verbatim>\<open>for _, r := range a.Routes { Design.IterateVersions(...) }\<close>.\<close>

fun implicit_params_routes ::
  "nat \<Rightarrow> action_ptr \<Rightarrow> RouteDefinition option list \<Rightarrow> world \<Rightarrow> abort + world" where
  "implicit_params_routes n p [] w = Inr w"
| "implicit_params_routes n p (r # rs) w =
     (case IterateVersions (Design w) (Design w) (create_implicit_params n p r) w of
        (Some e, w') \<Rightarrow> Inl e
      | (None, w') \<Rightarrow> implicit_params_routes n p rs w')"

text \<open>
  Step 3 for one path parameter name: it is marked in the non-zero attributes of the
  parameters of the action and deleted from the query parameters. Deleting from the nil map
  does nothing.
\<close>

definition mark_path_param ::
  "action_ptr \<Rightarrow> string \<Rightarrow> AttributeDefinition \<times> world \<Rightarrow> abort + AttributeDefinition \<times> world" where
  "mark_path_param p pname = (\<lambda>(queryParams, w).
     (case actions w p of
        None \<Rightarrow> Inl NilDereference
      | Some a \<Rightarrow>
          (case act_Params a of
             None \<Rightarrow> Inl NilDereference
           | Some params \<Rightarrow>
               (let params' = AttributeDefinition (att_Type params)
                      (AList.update pname True (att_NonZeroAttributes params));
                    w' = w\<lparr>actions := (actions w)(p \<mapsto> a\<lparr>act_Params := Some params'\<rparr>)\<rparr>
                in case Type_ToObject queryParams of
                     Inl e \<Rightarrow> Inl e
                   | Inr None \<Rightarrow> Inr (queryParams, w')
                   | Inr (Some obj) \<Rightarrow>
                       Inr (AttributeDefinition (Some (Object (AList.delete pname obj)))
                              (att_NonZeroAttributes queryParams), w')))))"

fun mark_path_params ::
  "action_ptr \<Rightarrow> string list \<Rightarrow> AttributeDefinition \<times> world \<Rightarrow>
     abort + AttributeDefinition \<times> world" where
  "mark_path_params p [] s = Inr s"
| "mark_path_params p (pname # pnames) s =
     (case mark_path_param p pname s of
        Inl e \<Rightarrow> Inl e
      | Inr s' \<Rightarrow> mark_path_params p pnames s')"

text \<open>\<^verbatim>\<open>for _, route := range a.Routes { pnames := route.Params(ver); ... }\<close>.\<close>

fun mark_routes ::
  "nat \<Rightarrow> action_ptr \<Rightarrow> APIVersionDefinition option \<Rightarrow> RouteDefinition option list \<Rightarrow>
     AttributeDefinition \<times> world \<Rightarrow> abort + AttributeDefinition \<times> world" where
  "mark_routes n p ver [] s = Inr s"
| "mark_routes n p ver (route # routes) s =
     (case route_Params n (snd s) ver route of
        Inl e \<Rightarrow> Inl e
      | Inr pnames \<Rightarrow>
          (case mark_path_params p pnames s of
             Inl e \<Rightarrow> Inl e
           | Inr s' \<Rightarrow> mark_routes n p ver routes s'))"

text \<open>The closure of step 3.\<close>

definition partition_version ::
  "nat \<Rightarrow> action_ptr \<Rightarrow> APIVersionDefinition option \<Rightarrow> AttributeDefinition \<times> world \<Rightarrow>
     abort option \<times> AttributeDefinition \<times> world" where
  "partition_version n p ver s =
     (case actions (snd s) p of
        None \<Rightarrow> (Some NilDereference, s)
      | Some a \<Rightarrow>
          (case mark_routes n p ver (act_Routes a) s of
             Inl e \<Rightarrow> (Some e, s)
           | Inr s' \<Rightarrow> (None, s')))"

text \<open>
  Step 3: when the action has parameters, the query parameters start as their duplicate,
  the non-zero attributes of the parameters start empty, and every version is visited.
\<close>

definition partition_params :: "nat \<Rightarrow> action_ptr \<Rightarrow> world \<Rightarrow> abort + world" where
  "partition_params n p w =
     (case actions w p of
        None \<Rightarrow> Inl NilDereference
      | Some a \<Rightarrow>
          (case act_Params a of
             None \<Rightarrow> Inr w
           | Some params \<Rightarrow>
               (let queryParams = DupAtt params;
                    w1 = w\<lparr>actions := (actions w)(p \<mapsto>
                           a\<lparr>act_Params := Some (AttributeDefinition (att_Type params) [])\<rparr>)\<rparr>
                in case IterateVersions (Design w1) (Design w1) (partition_version n p)
                          (queryParams, w1) of
                     (Some e, s) \<Rightarrow> Inl e
                   | (None, (queryParams', w2)) \<Rightarrow>
                       (case actions w2 p of
                          None \<Rightarrow> Inl NilDereference
                        | Some a2 \<Rightarrow>
                            Inr (w2\<lparr>actions := (actions w2)(p \<mapsto>
                                   a2\<lparr>act_QueryParams := Some queryParams'\<rparr>)\<rparr>)))))"

text \<open>
  The closure that \<^verbatim>\<open>Finalize\<close> hands to \<^verbatim>\<open>IterateActions\<close>: the three steps on the
  action behind the pointer it is given. Ranging over the responses of a nil action panics.
\<close>

definition finalize_action :: "nat \<Rightarrow> action_ptr option \<Rightarrow> world \<Rightarrow> abort option \<times> world" where
  "finalize_action n ap w =
     (case ap of
        None \<Rightarrow> (Some NilDereference, w)
      | Some p \<Rightarrow>
          (case actions w p of
             None \<Rightarrow> (Some NilDereference, w)
           | Some a \<Rightarrow>
               (case merge_responses w a (act_Responses a) of
                  Inl e \<Rightarrow> (Some e, w)
                | Inr resps \<Rightarrow>
                    (let w1 = w\<lparr>actions := (actions w)(p \<mapsto> a\<lparr>act_Responses := resps\<rparr>)\<rparr>
                     in case implicit_params_routes n p (act_Routes a) w1 of
                          Inl e \<Rightarrow> (Some e, w1)
                        | Inr w2 \<Rightarrow>
                            (case partition_params n p w2 of
                               Inl e \<Rightarrow> (Some e, w2)
                             | Inr w3 \<Rightarrow> (None, w3))))))"

text \<open>
  \<^verbatim>\<open>func (r *ResourceDefinition) Finalize()\<close>, on the resource at address \<open>rp\<close>, with
  fuel \<open>n\<close> for every full path it computes.
\<close>

definition Finalize :: "nat \<Rightarrow> world \<Rightarrow> resource_ptr \<Rightarrow> abort + world" where
  "Finalize n w rp =
     (case resources w rp of
        None \<Rightarrow> Inl NilDereference
      | Some r \<Rightarrow>
          (case IterateActions r (finalize_action n) w of
             (Some e, w') \<Rightarrow> Inl e
           | (None, w') \<Rightarrow> Inr w'))"

text \<open>
  The path parameter names of a route under a version, as \<^verbatim>\<open>route.Params(ver)\<close>
  returns them (none when it does not return), and those of an action: the names of all
  its routes.
\<close>

definition route_param_set ::
  "nat \<Rightarrow> world \<Rightarrow> APIVersionDefinition option \<Rightarrow> RouteDefinition option \<Rightarrow> string set" where
  "route_param_set n w ver route =
     (case route_Params n w ver route of Inl e \<Rightarrow> {} | Inr pnames \<Rightarrow> set pnames)"

definition path_param_names ::
  "nat \<Rightarrow> world \<Rightarrow> APIVersionDefinition option \<Rightarrow> ActionDefinition \<Rightarrow> string set" where
  "path_param_names n w ver a =
     (\<Union>route \<in> set (act_Routes a). route_param_set n w ver route)"

text \<open>\<^verbatim>\<open>func (a *ActionDefinition) HasAbsoluteRoutes() bool\<close>, on the list of routes.\<close>

fun HasAbsoluteRoutes :: "RouteDefinition option list \<Rightarrow> abort + bool" where
  "HasAbsoluteRoutes [] = Inr True"
| "HasAbsoluteRoutes (None # rs) = Inl NilDereference"
| "HasAbsoluteRoutes (Some r # rs) = (if \<not> IsAbsolute r then Inr False else HasAbsoluteRoutes rs)"

text \<open>
  \<^verbatim>\<open>func (a *ActionDefinition) AllParams() *AttributeDefinition\<close>. The method
  \<^verbatim>\<open>Merge\<close> of \<^verbatim>\<open>AttributeDefinition\<close> is declared outside the files under \<^verbatim>\<open>src/\<close> and
  is the parameter \<open>att_Merge\<close>: it takes the receiver and the argument, both pointers, and
  returns a pointer or panics. The recursion goes to the canonical action of the parent of
  the parent resource and is bounded by the fuel.
\<close>

fun AllParams ::
  "(AttributeDefinition option \<Rightarrow> AttributeDefinition option \<Rightarrow> abort + AttributeDefinition option) \<Rightarrow>
     nat \<Rightarrow> world \<Rightarrow> ActionDefinition \<Rightarrow> abort + AttributeDefinition option" where
  "AllParams att_Merge 0 w a = Inl OutOfFuel"
| "AllParams att_Merge (Suc n) w a =
     (let res = (case act_Params a of
                   Some params \<Rightarrow> DupAtt params
                 | None \<Rightarrow> AttributeDefinition (Some (Object [])) [])
      in case HasAbsoluteRoutes (act_Routes a) of
           Inl e \<Rightarrow> Inl e
         | Inr True \<Rightarrow> Inr (Some res)
         | Inr False \<Rightarrow>
             (case resources w (act_Parent a) of
                None \<Rightarrow> Inl NilDereference
              | Some parent \<Rightarrow>
                  (case att_Merge (Some res) (res_BaseParams parent) of
                     Inl e \<Rightarrow> Inl e
                   | Inr res1 \<Rightarrow>
                       (case api_Default (Design w) of
                          None \<Rightarrow> Inl NilDereference
                        | Some d \<Rightarrow>
                            (case att_Merge res1 (ver_BaseParams d) of
                               Inl e \<Rightarrow> Inl e
                             | Inr res2 \<Rightarrow>
                                 (case Parent w parent of
                                    None \<Rightarrow> Inr res2
                                  | Some p \<Rightarrow>
                                      (case CanonicalAction w p of
                                         None \<Rightarrow> Inl NilDereference
                                       | Some ca \<Rightarrow>
                                           (case AllParams att_Merge n w ca of
                                              Inl e \<Rightarrow> Inl e
                                            | Inr cap \<Rightarrow> att_Merge res2 cap))))))))"


section \<open>Example graphs\<close>

text \<open>
  The nested resources of the scenario in the spec: a parent resource with base path
  \<^verbatim>\<open>/parents\<close> and a canonical action \<^verbatim>\<open>show\<close> routed at \<^verbatim>\<open>/:parentID\<close>, and a child
  resource with base path \<^verbatim>\<open>/children\<close> and an action \<^verbatim>\<open>list\<close>. The parent is stored at
  address 1 and the child at address 2; their actions at addresses 11 and 21. A second
  version \<^verbatim>\<open>v2\<close> has the base path \<^verbatim>\<open>/:tenant\<close>.
\<close>

definition example_default_version :: APIVersionDefinition where
  "example_default_version =
     \<lparr>ver_Name = ''api'', ver_Version = [], ver_BasePath = [], ver_BaseParams = None,
      ver_Responses = [], ver_DefaultResponses = []\<rparr>"

definition example_v2 :: APIVersionDefinition where
  "example_v2 =
     \<lparr>ver_Name = ''api'', ver_Version = ''v2'', ver_BasePath = ''/:tenant'',
      ver_BaseParams = None, ver_Responses = [], ver_DefaultResponses = []\<rparr>"

definition example_show :: ActionDefinition where
  "example_show =
     \<lparr>act_Name = ''show'', act_Parent = 1,
      act_Routes = [Some \<lparr>rt_Verb = ''GET'', rt_Path = ''/:parentID'', rt_Parent = 11\<rparr>],
      act_Responses = [], act_Params = None, act_QueryParams = None\<rparr>"

definition example_list :: ActionDefinition where
  "example_list =
     \<lparr>act_Name = ''list'', act_Parent = 2,
      act_Routes = [Some \<lparr>rt_Verb = ''GET'', rt_Path = ''/'', rt_Parent = 21\<rparr>],
      act_Responses = [],
      act_Params = Some (AttributeDefinition
        (Some (Object [(''page'', AttributeDefinition (Some (Primitive IntegerKind)) [])])) []),
      act_QueryParams = None\<rparr>"

definition example_parent :: ResourceDefinition where
  "example_parent =
     \<lparr>res_Name = ''parent'', res_BasePath = ''/parents'', res_BaseParams = None,
      res_ParentName = [], res_APIVersions = [], res_MediaType = ''plain/text'',
      res_Actions = [(''show'', 11)], res_CanonicalActionName = [], res_Responses = []\<rparr>"

definition example_child :: ResourceDefinition where
  "example_child =
     \<lparr>res_Name = ''child'', res_BasePath = ''/children'', res_BaseParams = None,
      res_ParentName = ''parent'', res_APIVersions = [], res_MediaType = ''plain/text'',
      res_Actions = [(''list'', 21)], res_CanonicalActionName = [], res_Responses = []\<rparr>"

definition example_world :: world where
  "example_world =
     \<lparr>Design = \<lparr>api_Default = Some example_default_version,
                 api_APIVersions = [(''v2'', Some example_v2)],
                 api_Resources = [(''parent'', 1), (''child'', 2)],
                 api_Types = [], api_MediaTypes = []\<rparr>,
      resources = [1 \<mapsto> example_parent, 2 \<mapsto> example_child],
      actions = [11 \<mapsto> example_show, 21 \<mapsto> example_list]\<rparr>"

text \<open>The same graph, but the parent resource has no action at all.\<close>

definition example_world_no_show :: world where
  "example_world_no_show =
     example_world\<lparr>resources := [1 \<mapsto> example_parent\<lparr>res_Actions := []\<rparr>, 2 \<mapsto> example_child]\<rparr>"






section \<open>What finalization may change\<close>

text \<open>
  The relations in which the proofs about \<^verbatim>\<open>Finalize\<close> speak. Parameters extend others
  when they keep every name with its attribute, every further name is a string attribute,
  and they are nil only if the others are.
\<close>

definition extends :: "AttributeDefinition option \<Rightarrow> AttributeDefinition option \<Rightarrow> bool" where
  "extends ps ps' \<longleftrightarrow>
     att_names ps \<subseteq> att_names ps' \<and>
     (\<forall>k \<in> att_names ps. att_child ps' k = att_child ps k) \<and>
     (\<forall>k \<in> att_names ps' - att_names ps.
        att_child ps' k = Some (AttributeDefinition (Some String) [])) \<and>
     (ps' = None \<longrightarrow> ps = None)"

text \<open>
  An action extends another when it has the same routes and the same parent, its
  parameters extend the other's, and its query parameters are the other's unless it has
  parameters.
\<close>

definition act_extends :: "ActionDefinition \<Rightarrow> ActionDefinition \<Rightarrow> bool" where
  "act_extends a a' \<longleftrightarrow>
     act_Routes a' = act_Routes a \<and> act_Parent a' = act_Parent a \<and>
     extends (act_Params a) (act_Params a') \<and>
     (act_Params a' = None \<longrightarrow> act_QueryParams a' = act_QueryParams a)"

text \<open>
  A world evolves from another when the design and the resources are the same and every
  action extends the action that was at its address.
\<close>

definition evolves :: "world \<Rightarrow> world \<Rightarrow> bool" where
  "evolves w w' \<longleftrightarrow>
     Design w' = Design w \<and> resources w' = resources w \<and>
     (\<forall>q. rel_option act_extends (actions w q) (actions w' q))"

text \<open>The same, with no action changed but the one at address \<open>p\<close>.\<close>

definition changes_only :: "action_ptr \<Rightarrow> world \<Rightarrow> world \<Rightarrow> bool" where
  "changes_only p w w' \<longleftrightarrow> evolves w w' \<and> (\<forall>q. q \<noteq> p \<longrightarrow> actions w' q = actions w q)"

text \<open>
  The path parameter names of an action under all the versions that
  \<^verbatim>\<open>Design.IterateVersions\<close> visits.
\<close>

definition all_path_param_names :: "nat \<Rightarrow> world \<Rightarrow> ActionDefinition \<Rightarrow> string set" where
  "all_path_param_names n w a =
     (\<Union>ver \<in> set (version_scopes (Design w)). path_param_names n w ver a)"

text \<open>
  The same again, with the parameters of the action at address \<open>p\<close> left with the
  children they had (step 3 changes only their non-zero attributes).
\<close>

definition keeps_params :: "action_ptr \<Rightarrow> world \<Rightarrow> world \<Rightarrow> bool" where
  "keeps_params p w w' \<longleftrightarrow>
     changes_only p w w' \<and>
     (\<forall>a. actions w p = Some a \<longrightarrow>
        (\<exists>a'. actions w' p = Some a' \<and>
           att_object (act_Params a') = att_object (act_Params a) \<and>
           (act_Params a' = None \<longleftrightarrow> act_Params a = None)))"

text \<open>
  What finalization establishes for an action: under every version that is visited, every
  route of the action has a full path, and the wildcards of that path are names of the
  parameters of the action; and if the action has parameters, the names of its query
  parameters are the names of its parameters that are a path parameter name under no
  version.
\<close>

definition finalized_action :: "nat \<Rightarrow> world \<Rightarrow> ActionDefinition \<Rightarrow> bool" where
  "finalized_action n w a \<longleftrightarrow>
     (\<forall>ver\<in>set (version_scopes (Design w)). \<forall>route\<in>set (act_Routes a).
        \<exists>fp. route_FullPath n w ver route = Inr fp \<and>
          set (ExtractWildcards fp) \<subseteq> att_names (act_Params a)) \<and>
     (act_Params a \<noteq> None \<longrightarrow>
        att_names (act_QueryParams a) = att_names (act_Params a) - all_path_param_names n w a)"


section \<open>Properties of wildcard extraction\<close>

lemma isWordChar_not_slash: "isWordChar c \<Longrightarrow> c \<noteq> CHR ''/''"
  by (auto simp: isWordChar_def less_eq_char_def)

lemma wildcard_runs_skip_word:
  "\<forall>c\<in>set ws. isWordChar c \<Longrightarrow> wildcard_runs (ws @ rest) = wildcard_runs rest"
proof (induction ws)
  case Nil
  then show ?case by simp
next
  case (Cons w ws)
  then have "w \<noteq> CHR ''/''" by (simp add: isWordChar_not_slash)
  moreover from Cons have "wildcard_runs (ws @ rest) = wildcard_runs rest" by simp
  ultimately show ?case by (cases "ws @ rest") auto
qed

lemma wildcard_runs_dropWhile:
  "wildcard_runs (dropWhile isWordChar ds) = wildcard_runs ds"
proof -
  have "wildcard_runs (takeWhile isWordChar ds @ dropWhile isWordChar ds) =
        wildcard_runs (dropWhile isWordChar ds)"
    by (rule wildcard_runs_skip_word) (auto dest: set_takeWhileD)
  then show ?thesis by simp
qed

lemma wildcard_runs_marker:
  "d = CHR '':'' \<or> d = CHR ''*'' \<Longrightarrow> wildcard_runs (d # ds) = wildcard_runs ds"
  by (cases ds) auto

lemma FindAll_eq_runs: "FindAllStringSubmatch p = wildcard_runs p"
proof (induction p rule: FindAllStringSubmatch.induct)
  case 1
  then show ?case by simp
next
  case (2 c)
  then show ?case by simp
next
  case (3 c d ds)
  show ?case
  proof (cases "c = CHR ''/'' \<and> (d = CHR '':'' \<or> d = CHR ''*'') \<and> takeWhile isWordChar ds \<noteq> []")
    case True
    with 3 have "FindAllStringSubmatch (dropWhile isWordChar ds) = wildcard_runs (dropWhile isWordChar ds)"
      by simp
    with True show ?thesis
      by (simp add: wildcard_runs_dropWhile wildcard_runs_marker del: wildcard_runs.simps(3))
         (simp add: wildcard_runs_marker)
  next
    case False
    with 3 show ?thesis by auto
  qed
qed

lemma maximal_run_iff:
  "takeWhile P ds = n \<longleftrightarrow>
     (\<exists>post. ds = n @ post \<and> (\<forall>c\<in>set n. P c) \<and> (post = [] \<or> \<not> P (hd post)))"
proof
  assume a: "takeWhile P ds = n"
  have "ds = takeWhile P ds @ dropWhile P ds" by simp
  with a have 1: "ds = n @ dropWhile P ds" by simp
  from a have 2: "\<forall>c\<in>set n. P c" by (auto dest: set_takeWhileD)
  have 3: "dropWhile P ds = [] \<or> \<not> P (hd (dropWhile P ds))"
    using hd_dropWhile by blast
  from 1 2 3 show "\<exists>post. ds = n @ post \<and> (\<forall>c\<in>set n. P c) \<and> (post = [] \<or> \<not> P (hd post))"
    by blast
next
  assume "\<exists>post. ds = n @ post \<and> (\<forall>c\<in>set n. P c) \<and> (post = [] \<or> \<not> P (hd post))"
  then obtain post where p: "ds = n @ post" "\<forall>c\<in>set n. P c" "post = [] \<or> \<not> P (hd post)"
    by blast
  show "takeWhile P ds = n"
  proof (cases post)
    case Nil
    with p show ?thesis by (simp add: takeWhile_eq_all_conv)
  next
    case (Cons x xs)
    with p have "\<not> P x" by simp
    with p Cons show ?thesis by (simp add: takeWhile_append2 takeWhile_eq_all_conv)
  qed
qed

text \<open>A name follows a marker in a path: somewhere in the path stand a slash, a colon or a
  star, and then the name as the maximal, non-empty run of word characters.\<close>

lemma follows_marker_Cons:
  "(\<exists>pre m ds. c # d # rest = pre @ CHR ''/'' # m # ds \<and> (m = CHR '':'' \<or> m = CHR ''*'') \<and>
       takeWhile isWordChar ds = n \<and> n \<noteq> []) \<longleftrightarrow>
     (c = CHR ''/'' \<and> (d = CHR '':'' \<or> d = CHR ''*'') \<and> takeWhile isWordChar rest = n \<and> n \<noteq> [])
     \<or> (\<exists>pre m ds. d # rest = pre @ CHR ''/'' # m # ds \<and> (m = CHR '':'' \<or> m = CHR ''*'') \<and>
       takeWhile isWordChar ds = n \<and> n \<noteq> [])"
  (is "?L \<longleftrightarrow> ?H \<or> ?T")
proof
  assume ?L
  then obtain pre m ds where h: "c # d # rest = pre @ CHR ''/'' # m # ds"
      "m = CHR '':'' \<or> m = CHR ''*''" "takeWhile isWordChar ds = n" "n \<noteq> []"
    by blast
  show "?H \<or> ?T"
  proof (cases pre)
    case Nil
    with h show ?thesis by simp
  next
    case (Cons x pre')
    with h have "d # rest = pre' @ CHR ''/'' # m # ds" by simp
    with h have ?T by blast
    then show ?thesis by simp
  qed
next
  assume a: "?H \<or> ?T"
  show ?L
  proof (cases ?T)
    case True
    then obtain pre m ds where h: "d # rest = pre @ CHR ''/'' # m # ds"
      "m = CHR '':'' \<or> m = CHR ''*''" "takeWhile isWordChar ds = n" "n \<noteq> []"
      by blast
    then have "c # d # rest = (c # pre) @ CHR ''/'' # m # ds" by simp
    with h show ?thesis by blast
  next
    case False
    with a have b: "c = CHR ''/''" "d = CHR '':'' \<or> d = CHR ''*''"
      "takeWhile isWordChar rest = n" "n \<noteq> []"
      by auto
    then have "c # d # rest = [] @ CHR ''/'' # d # rest" by simp
    with b show ?thesis by blast
  qed
qed

lemma set_wildcard_runs:
  "n \<in> set (wildcard_runs p) \<longleftrightarrow>
     (\<exists>pre m ds. p = pre @ CHR ''/'' # m # ds \<and> (m = CHR '':'' \<or> m = CHR ''*'') \<and>
        takeWhile isWordChar ds = n \<and> n \<noteq> [])"
proof (induction p rule: wildcard_runs.induct)
  case 1
  then show ?case by simp
next
  case (2 c)
  then show ?case by (simp add: append_eq_Cons_conv)
next
  case (3 c d ds)
  have "n \<in> set (wildcard_runs (c # d # ds)) \<longleftrightarrow>
      (c = CHR ''/'' \<and> (d = CHR '':'' \<or> d = CHR ''*'') \<and> takeWhile isWordChar ds = n \<and> n \<noteq> [])
      \<or> n \<in> set (wildcard_runs (d # ds))"
    by auto
  with 3 show ?case by (simp only: follows_marker_Cons)
qed

lemma wildcard_runs_no_slash: "CHR ''/'' \<notin> set p \<Longrightarrow> wildcard_runs p = []"
  by (induction p rule: wildcard_runs.induct) auto

text \<open>
  C10. ExtractWildcards returns the maximal non-empty runs of ASCII letters, digits and
  underscores that stand right behind a slash and a colon or star, in the order of their
  markers from left to right: the result is the list read off position by position; a
  string is in it exactly when the path holds a slash, a marker, that string made of word
  characters only, and then the end of the path or a character that is not a word
  character. In \<^verbatim>\<open>/x/:foo-bar\<close> the hyphen ends the name \<^verbatim>\<open>foo\<close>; a colon or star with
  no slash before it gives no wildcard, and a path without a slash has none at all.
\<close>

theorem ExtractWildcards_maximal_runs:
  "ExtractWildcards p = wildcard_runs p \<and>
   (\<forall>n. n \<in> set (ExtractWildcards p) \<longleftrightarrow>
      (\<exists>pre m post. p = pre @ CHR ''/'' # m # n @ post \<and> (m = CHR '':'' \<or> m = CHR ''*'') \<and>
         n \<noteq> [] \<and> (\<forall>c\<in>set n. isWordChar c) \<and> (post = [] \<or> \<not> isWordChar (hd post)))) \<and>
   ExtractWildcards ''/x/:foo-bar'' = [''foo''] \<and>
   ExtractWildcards ''x:foo/y*bar'' = [] \<and>
   (CHR ''/'' \<notin> set p \<longrightarrow> ExtractWildcards p = [])"
proof -
  have eq: "ExtractWildcards p = wildcard_runs p"
    by (simp add: ExtractWildcards_def FindAll_eq_runs)
  have mem: "n \<in> set (ExtractWildcards p) \<longleftrightarrow>
      (\<exists>pre m post. p = pre @ CHR ''/'' # m # n @ post \<and> (m = CHR '':'' \<or> m = CHR ''*'') \<and>
         n \<noteq> [] \<and> (\<forall>c\<in>set n. isWordChar c) \<and> (post = [] \<or> \<not> isWordChar (hd post)))" for n
  proof
    assume "n \<in> set (ExtractWildcards p)"
    then obtain pre m ds where h: "p = pre @ CHR ''/'' # m # ds" "m = CHR '':'' \<or> m = CHR ''*''"
        "takeWhile isWordChar ds = n" "n \<noteq> []"
      unfolding eq set_wildcard_runs by blast
    from h(3) obtain post where "ds = n @ post" "\<forall>c\<in>set n. isWordChar c"
        "post = [] \<or> \<not> isWordChar (hd post)"
      unfolding maximal_run_iff by blast
    with h show "\<exists>pre m post. p = pre @ CHR ''/'' # m # n @ post \<and> (m = CHR '':'' \<or> m = CHR ''*'') \<and>
         n \<noteq> [] \<and> (\<forall>c\<in>set n. isWordChar c) \<and> (post = [] \<or> \<not> isWordChar (hd post))"
      by blast
  next
    assume "\<exists>pre m post. p = pre @ CHR ''/'' # m # n @ post \<and> (m = CHR '':'' \<or> m = CHR ''*'') \<and>
         n \<noteq> [] \<and> (\<forall>c\<in>set n. isWordChar c) \<and> (post = [] \<or> \<not> isWordChar (hd post))"
    then obtain pre m post where h: "p = pre @ CHR ''/'' # m # n @ post"
        "m = CHR '':'' \<or> m = CHR ''*''" "n \<noteq> []" "\<forall>c\<in>set n. isWordChar c"
        "post = [] \<or> \<not> isWordChar (hd post)"
      by blast
    then have "takeWhile isWordChar (n @ post) = n"
      unfolding maximal_run_iff by blast
    with h show "n \<in> set (ExtractWildcards p)"
      unfolding eq set_wildcard_runs by blast
  qed
  have ex1: "ExtractWildcards ''/x/:foo-bar'' = [''foo'']"
    by (simp add: ExtractWildcards_def isWordChar_def)
  have ex2: "ExtractWildcards ''x:foo/y*bar'' = []"
    by (simp add: ExtractWildcards_def isWordChar_def)
  have ns: "CHR ''/'' \<notin> set p \<longrightarrow> ExtractWildcards p = []"
    by (simp add: eq wildcard_runs_no_slash)
  from eq mem ex1 ex2 ns show ?thesis by blast
qed

theorem ExtractWildcards_maximal_runs_witness:
  "ExtractWildcards ''/users/:id/*rest'' = wildcard_runs ''/users/:id/*rest'' \<and>
   ''id'' \<in> set (ExtractWildcards ''/users/:id/*rest'') \<and>
   ''i'' \<notin> set (ExtractWildcards ''/users/:id/*rest'') \<and>
   CHR ''/'' \<notin> set ''users:id'' \<and> ExtractWildcards ''users:id'' = []"
proof -
  have 1: "ExtractWildcards ''/users/:id/*rest'' = wildcard_runs ''/users/:id/*rest''"
    using ExtractWildcards_maximal_runs [of "''/users/:id/*rest''"] by blast
  have "''/users/:id/*rest'' = ''/users'' @ CHR ''/'' # CHR '':'' # ''id'' @ ''/*rest'' \<and>
      (CHR '':'' = CHR '':'' \<or> CHR '':'' = CHR ''*'') \<and> ''id'' \<noteq> [] \<and>
      (\<forall>c\<in>set ''id''. isWordChar c) \<and> (''/*rest'' = [] \<or> \<not> isWordChar (hd ''/*rest''))"
    by (simp add: isWordChar_def)
  then have 2: "''id'' \<in> set (ExtractWildcards ''/users/:id/*rest'')"
    using ExtractWildcards_maximal_runs [of "''/users/:id/*rest''"] by blast
  have 3: "''i'' \<notin> set (ExtractWildcards ''/users/:id/*rest'')"
    by (simp add: 1 isWordChar_def)
  have 4: "CHR ''/'' \<notin> set ''users:id''" by simp
  then have 5: "ExtractWildcards ''users:id'' = []"
    using ExtractWildcards_maximal_runs [of "''users:id''"] by blast
  from 1 2 3 4 5 show ?thesis by blast
qed


section \<open>Properties of response merging\<close>

lemma map_of_merge_headers:
  "map_of (merge_headers other headers) k =
     (case map_of headers k of Some h \<Rightarrow> Some h | None \<Rightarrow> map_of other k)"
proof (induction other headers rule: merge_headers.induct)
  case (1 headers)
  then show ?case by (simp split: option.splits)
next
  case (2 n h rest headers)
  show ?case
  proof (cases "map_of headers n")
    case None
    with 2 have ih: "map_of (merge_headers rest (AList.update n h headers)) k =
        (case map_of (AList.update n h headers) k of Some h \<Rightarrow> Some h | None \<Rightarrow> map_of rest k)"
      by simp
    have upd: "map_of (AList.update n h headers) k = (if k = n then Some h else map_of headers k)"
      by (simp add: update_conv')
    have m: "merge_headers ((n, h) # rest) headers = merge_headers rest (AList.update n h headers)"
      using None by simp
    show ?thesis
    proof (cases "k = n")
      case True
      then show ?thesis unfolding m ih upd using None by simp
    next
      case False
      then show ?thesis unfolding m ih upd by (simp split: option.split)
    qed
  next
    case (Some a)
    with 2 have ih: "map_of (merge_headers rest headers) k =
        (case map_of headers k of Some h \<Rightarrow> Some h | None \<Rightarrow> map_of rest k)"
      by simp
    have m: "merge_headers ((n, h) # rest) headers = merge_headers rest headers"
      using Some by simp
    show ?thesis
    proof (cases "k = n")
      case True
      then show ?thesis unfolding m ih using Some by simp
    next
      case False
      then show ?thesis unfolding m ih by (simp split: option.split)
    qed
  qed
qed

lemma Merge_unfold:
  "Merge r (Some ot) =
     (case resp_Headers ot of
        None \<Rightarrow> Inr (merge_scalars r ot)
      | Some oh \<Rightarrow>
          (case Type_ToObject oh of
             Inl e \<Rightarrow> Inl e
           | Inr None \<Rightarrow> Inr (merge_scalars r ot)
           | Inr (Some otherHeaders) \<Rightarrow>
               if length otherHeaders > 0 then
                 (let rh = (case resp_Headers r of
                              None \<Rightarrow> AttributeDefinition (Some (Object [])) []
                            | Some a \<Rightarrow> a)
                  in case Type_ToObject rh of
                       Inl e \<Rightarrow> Inl e
                     | Inr None \<Rightarrow> Inl NilMapAssignment
                     | Inr (Some headers) \<Rightarrow>
                         Inr ((merge_scalars r ot)\<lparr>resp_Headers :=
                           Some (AttributeDefinition
                             (Some (Object (merge_headers otherHeaders headers)))
                             (att_NonZeroAttributes rh))\<rparr>))
               else Inr (merge_scalars r ot)))"
  by (simp add: Merge_def Let_def merge_scalars_def split: option.splits sum.splits)

lemma headers_merge_scalars: "resp_Headers (merge_scalars r ot) = resp_Headers r"
  by (simp add: merge_scalars_def)

lemma Merge_scalars_or_headers:
  assumes "Merge r (Some ot) = Inr r'"
  shows "\<exists>h. r' = (merge_scalars r ot)\<lparr>resp_Headers := h\<rparr>"
proof -
  have id: "merge_scalars r ot = (merge_scalars r ot)\<lparr>resp_Headers := resp_Headers r\<rparr>"
    by (simp add: merge_scalars_def)
  from assms show ?thesis
    unfolding Merge_unfold
    by (auto simp: Let_def split: option.splits sum.splits if_splits intro: id)
qed

lemma Type_ToObject_Some:
  "Type_ToObject a = Inr (Some obj) \<Longrightarrow> att_object (Some a) = obj"
  by (auto simp: Type_ToObject_def att_object_def split: option.splits)

lemma Type_ToObject_None:
  "Type_ToObject a = Inr None \<Longrightarrow> att_object (Some a) = []"
  by (auto simp: Type_ToObject_def att_object_def split: option.splits)

lemma Merge_headers:
  assumes "Merge r (Some other) = Inr r'"
  shows "att_child (resp_Headers r') k =
     (case att_child (resp_Headers r) k of
        Some h \<Rightarrow> Some h
      | None \<Rightarrow> att_child (resp_Headers other) k)"
proof (cases "resp_Headers other")
  case None
  with assms have "r' = merge_scalars r other" by (simp add: Merge_unfold)
  with None show ?thesis
    by (simp add: att_child_def att_object_def headers_merge_scalars split: option.splits)
next
  case (Some oh)
  show ?thesis
  proof (cases "Type_ToObject oh")
    case (Inl e)
    with Some assms show ?thesis by (simp add: Merge_unfold)
  next
    case (Inr oo)
    show ?thesis
    proof (cases oo)
      case None
      with Inr Some assms have "r' = merge_scalars r other" by (simp add: Merge_unfold)
      moreover from None Inr have "att_object (Some oh) = []" by (simp add: Type_ToObject_None)
      ultimately show ?thesis using Some
        by (simp add: att_child_def headers_merge_scalars split: option.splits)
    next
      case oo: (Some otherHeaders)
      with Inr have oh: "att_object (Some oh) = otherHeaders" by (simp add: Type_ToObject_Some)
      show ?thesis
      proof (cases "otherHeaders = []")
        case True
        with Some Inr oo assms have "r' = merge_scalars r other" by (simp add: Merge_unfold)
        with True Some oh show ?thesis
          by (simp add: att_child_def headers_merge_scalars split: option.splits)
      next
        case False
        define rh where
          "rh = (case resp_Headers r of
                   None \<Rightarrow> AttributeDefinition (Some (Object [])) []
                 | Some a \<Rightarrow> a)"
        from False Some Inr oo assms obtain headers where
          h: "Type_ToObject rh = Inr (Some headers)"
          and r': "r' = (merge_scalars r other)\<lparr>resp_Headers :=
                     Some (AttributeDefinition (Some (Object (merge_headers otherHeaders headers)))
                        (att_NonZeroAttributes rh))\<rparr>"
          by (auto simp: Merge_unfold Let_def rh_def split: option.splits sum.splits)
        from h have "att_object (Some rh) = headers" by (rule Type_ToObject_Some)
        then have a: "att_child (resp_Headers r) k = map_of headers k"
          by (auto simp: att_child_def att_object_def rh_def split: option.splits)
        have b: "att_child (resp_Headers other) k = map_of otherHeaders k"
          using Some oh by (simp add: att_child_def)
        have c: "att_child (resp_Headers r') k = map_of (merge_headers otherHeaders headers) k"
          using r' by (simp add: att_child_def att_object_def)
        show ?thesis unfolding a b c by (rule map_of_merge_headers)
      qed
    qed
  qed
qed

lemma Merge_all_empty:
  assumes "resp_Name ot = []" "resp_Status ot = 0" "resp_Description ot = []"
    "resp_MediaType ot = []" "att_names (resp_Headers ot) = {}"
    and "Merge r (Some ot) = Inr r'"
  shows "r' = r"
proof -
  have s: "merge_scalars r ot = r"
    using assms(1-4) by (simp add: merge_scalars_def)
  from assms(5) have e: "att_object (resp_Headers ot) = []"
    by (simp add: att_names_def)
  show ?thesis
  proof (cases "resp_Headers ot")
    case None
    with assms(6) s show ?thesis by (simp add: Merge_unfold)
  next
    case (Some oh)
    with e have "att_object (Some oh) = []" by simp
    with Some assms(6) s show ?thesis
      by (auto simp: Merge_unfold dest: Type_ToObject_Some split: option.splits sum.splits if_splits)
  qed
qed

lemma Merge_returns_iff:
  "(\<exists>r'. Merge r (Some ot) = Inr r') \<longleftrightarrow> \<not> Merge_panics r ot"
proof (cases "resp_Headers ot")
  case None
  then show ?thesis by (simp add: Merge_unfold Merge_panics_def)
next
  case (Some oh)
  show ?thesis
  proof (cases "att_Type oh")
    case None
    with Some show ?thesis
      by (simp add: Merge_unfold Merge_panics_def Type_ToObject_def)
  next
    case t: (Some t)
    show ?thesis
    proof (cases "ToObject t")
      case None
      with Some t show ?thesis
        by (simp add: Merge_unfold Merge_panics_def Type_ToObject_def att_object_def)
    next
      case oo: (Some otherHeaders)
      show ?thesis
      proof (cases "otherHeaders = []")
        case True
        with Some t oo show ?thesis
          by (simp add: Merge_unfold Merge_panics_def Type_ToObject_def att_object_def)
      next
        case False
        with Some t oo show ?thesis
          by (simp add: Merge_unfold Merge_panics_def Type_ToObject_def att_object_def Let_def
              split: option.splits)
      qed
    qed
  qed
qed

text \<open>
  C3, as the claim states it, fails: a receiver whose header attribute is a string and
  another response with two headers. The header names of the other response are not
  added; the first assignment goes into the nil map and the merge panics.
\<close>

theorem Merge_string_headers_panics:
  "Merge example_string_headers_response (Some example_global_response) = Inl NilMapAssignment"
  by (simp add: Merge_unfold example_string_headers_response_def example_global_response_def
      Type_ToObject_def String_def)

text \<open>
  C3, amended. r.Merge(other) returns exactly on the pairs on which it does not panic,
  and it panics exactly when other has a header attribute whose type is nil, or other
  has at least one header and r has a header attribute whose type is nil or not an
  object. Whenever it returns, each of Name, Status, Description and MediaType of r is
  taken from other only if r's own was the empty string (0 for Status) and is kept
  otherwise; under every header name r keeps the header it had, and gets other's header
  where it had none; the remaining fields are not touched; and if the four fields of other
  are empty and other has no header, r is left as it was.
\<close>

theorem Merge_fills_unset_fields_when_it_returns:
  "((\<exists>r'. Merge r (Some other) = Inr r') \<longleftrightarrow> \<not> Merge_panics r other) \<and>
   (\<forall>r'. Merge r (Some other) = Inr r' \<longrightarrow>
      resp_Name r' = (if resp_Name r = [] then resp_Name other else resp_Name r) \<and>
      resp_Status r' = (if resp_Status r = 0 then resp_Status other else resp_Status r) \<and>
      resp_Description r' =
        (if resp_Description r = [] then resp_Description other else resp_Description r) \<and>
      resp_MediaType r' =
        (if resp_MediaType r = [] then resp_MediaType other else resp_MediaType r) \<and>
      (\<forall>k. att_child (resp_Headers r') k =
         (case att_child (resp_Headers r) k of
            Some h \<Rightarrow> Some h
          | None \<Rightarrow> att_child (resp_Headers other) k)) \<and>
      resp_Type r' = resp_Type r \<and> resp_Standard r' = resp_Standard r \<and>
      resp_Global r' = resp_Global r \<and>
      (resp_Name other = [] \<and> resp_Status other = 0 \<and> resp_Description other = [] \<and>
       resp_MediaType other = [] \<and> att_names (resp_Headers other) = {} \<longrightarrow> r' = r))"
proof (intro conjI allI impI)
  show "(\<exists>r'. Merge r (Some other) = Inr r') \<longleftrightarrow> \<not> Merge_panics r other"
    by (rule Merge_returns_iff)
next
  fix r'
  assume m: "Merge r (Some other) = Inr r'"
  then obtain h where r': "r' = (merge_scalars r other)\<lparr>resp_Headers := h\<rparr>"
    using Merge_scalars_or_headers by blast
  show "resp_Name r' = (if resp_Name r = [] then resp_Name other else resp_Name r)"
    unfolding r' by (simp add: merge_scalars_def)
  show "resp_Status r' = (if resp_Status r = 0 then resp_Status other else resp_Status r)"
    unfolding r' by (simp add: merge_scalars_def)
  show "resp_Description r' =
        (if resp_Description r = [] then resp_Description other else resp_Description r)"
    unfolding r' by (simp add: merge_scalars_def)
  show "resp_MediaType r' =
        (if resp_MediaType r = [] then resp_MediaType other else resp_MediaType r)"
    unfolding r' by (simp add: merge_scalars_def)
  show "resp_Type r' = resp_Type r" unfolding r' by (simp add: merge_scalars_def)
  show "resp_Standard r' = resp_Standard r" unfolding r' by (simp add: merge_scalars_def)
  show "resp_Global r' = resp_Global r" unfolding r' by (simp add: merge_scalars_def)
  show "att_child (resp_Headers r') k =
         (case att_child (resp_Headers r) k of
            Some h \<Rightarrow> Some h
          | None \<Rightarrow> att_child (resp_Headers other) k)" for k
    by (rule Merge_headers [OF m])
  show "r' = r" if "resp_Name other = [] \<and> resp_Status other = 0 \<and>
      resp_Description other = [] \<and> resp_MediaType other = [] \<and>
      att_names (resp_Headers other) = {}"
    using that m Merge_all_empty [of other r r'] by blast
qed

theorem Merge_fills_unset_fields_witness:
  "\<not> Merge_panics example_resource_response example_global_response \<and>
   (\<exists>r'. Merge example_resource_response (Some example_global_response) = Inr r' \<and>
     resp_Name r' = ''OK'' \<and> resp_Status r' = 200 \<and> resp_Description r' = ''Success'' \<and>
     resp_MediaType r' = ''application/json'' \<and>
     att_child (resp_Headers r') ''Location'' = Some (AttributeDefinition (Some String) []) \<and>
     att_child (resp_Headers r') ''ETag'' = Some (AttributeDefinition (Some String) []) \<and>
     resp_Global r' = False)"
proof -
  note inst = Merge_fills_unset_fields_when_it_returns
    [of example_resource_response example_global_response]
  have np: "\<not> Merge_panics example_resource_response example_global_response"
    by (simp add: Merge_panics_def example_resource_response_def example_global_response_def
        att_object_def)
  with inst obtain r' where
    m: "Merge example_resource_response (Some example_global_response) = Inr r'"
    by blast
  have a: "att_child (resp_Headers example_resource_response) ''Location'' =
      Some (AttributeDefinition (Some String) [])"
    "att_child (resp_Headers example_resource_response) ''ETag'' = None"
    "att_child (resp_Headers example_global_response) ''ETag'' =
      Some (AttributeDefinition (Some String) [])"
    by (simp_all add: example_resource_response_def example_global_response_def att_child_def
        att_object_def)
  have b: "resp_Name example_resource_response = ''OK''"
    "resp_Status example_resource_response = 0"
    "resp_Description example_resource_response = []"
    "resp_MediaType example_resource_response = []"
    "resp_Global example_resource_response = False"
    "resp_Status example_global_response = 200"
    "resp_Description example_global_response = ''Success''"
    "resp_MediaType example_global_response = ''application/json''"
    by (simp_all add: example_resource_response_def example_global_response_def)
  from inst m have
    "resp_Name r' = ''OK'' \<and> resp_Status r' = 200 \<and> resp_Description r' = ''Success'' \<and>
     resp_MediaType r' = ''application/json'' \<and>
     att_child (resp_Headers r') ''Location'' = Some (AttributeDefinition (Some String) []) \<and>
     att_child (resp_Headers r') ''ETag'' = Some (AttributeDefinition (Some String) []) \<and>
     resp_Global r' = False"
    by (simp add: a b)
  with m np show ?thesis by blast
qed

text \<open>
  C9. r.Merge(nil) returns at once: it does not panic and the receiver keeps every field.
\<close>

theorem Merge_nil_is_noop: "Merge r None = Inr r"
  by (simp add: Merge_def)


section \<open>Properties of the enumerations\<close>










section \<open>Properties of path composition\<close>

lemma backtrack_index_ge: "Suc 0 \<le> w \<Longrightarrow> Suc 0 \<le> backtrack_index (Suc 0) out w"
  by (induction w) auto

lemma backtrack_nonempty: "Suc 0 < length out \<Longrightarrow> backtrack (Suc 0) out \<noteq> []"
proof -
  assume a: "Suc 0 < length out"
  then have "Suc 0 \<le> backtrack_index (Suc 0) out (length out - 1)"
    by (intro backtrack_index_ge) simp
  with a show ?thesis by (auto simp: backtrack_def)
qed

lemma CleanPath_loop_nonempty:
  "out \<noteq> [] \<Longrightarrow> snd (CleanPath_loop trailing out rest) \<noteq> []"
proof (induction trailing out rest rule: CleanPath_loop.induct)
  case (1 trailing out)
  then show ?case by simp
next
  case (2 trailing out c cs)
  then show ?case by (auto simp: Let_def backtrack_nonempty)
qed

lemma CleanPath_nonempty: "CleanPath p \<noteq> []"
proof (cases "p = []")
  case True
  then show ?thesis by (simp add: CleanPath_def)
next
  case False
  have a: "snd (CleanPath_loop t ''/'' rest) \<noteq> []" for t rest
    by (rule CleanPath_loop_nonempty) simp
  show ?thesis
  proof (cases "hd p = CHR ''/''")
    case True
    with False a [of "2 < length p \<and> last p = CHR ''/''" "tl p"] show ?thesis
      by (cases "CleanPath_loop (2 < length p \<and> last p = CHR ''/'') ''/'' (tl p)")
        (auto simp: CleanPath_def Let_def)
  next
    case h: False
    with False a [of "2 < length p \<and> last p = CHR ''/''" p] show ?thesis
      by (cases "CleanPath_loop (2 < length p \<and> last p = CHR ''/'') ''/'' p")
        (auto simp: CleanPath_def Let_def)
  qed
qed





text \<open>
  C5, as the claim states it, fails: the parent of the child resource has no canonical
  action, and the full path of the child is not the empty path but its own base path.
\<close>

theorem res_FullPath_without_canonical_action_not_empty:
  "Parent example_world_no_show example_child \<noteq> None \<and>
   CanonicalAction example_world_no_show
     (example_parent\<lparr>res_Actions := []\<rparr>) = None \<and>
   Parent example_world_no_show example_child = Some (example_parent\<lparr>res_Actions := []\<rparr>) \<and>
   res_FullPath 1 example_world_no_show (Some example_default_version) example_child =
     Inr ''/children''"
proof -
  have p: "Parent example_world_no_show example_child =
      Some (example_parent\<lparr>res_Actions := []\<rparr>)"
    by (simp add: Parent_def example_world_no_show_def example_world_def example_child_def)
  have c: "CanonicalAction example_world_no_show (example_parent\<lparr>res_Actions := []\<rparr>) = None"
    by (simp add: CanonicalAction_def)
  have "res_FullPath 1 example_world_no_show (Some example_default_version) example_child =
     Inr ''/children''"
    by code_simp
  with p c show ?thesis by simp
qed

text \<open>
  C5, amended. For every resource that has a parent resource, if the parent has no
  canonical action or the canonical action has no routes, FullPath does not abort: with
  any fuel but none, and for any version, nil or not, it returns the clean join of the
  empty base path with the resource's own base path, which is never the empty path (it is
  the root when the base path of the resource is empty). If the resource has no parent,
  FullPath returns the clean join of the version's base path with the resource's base
  path, for a version that is not nil.
\<close>

theorem res_FullPath_degrades_to_own_base_path:
  "(\<forall>p. Parent w r = Some p \<and>
        (CanonicalAction w p = None \<or>
         (\<exists>ca. CanonicalAction w p = Some ca \<and> act_Routes ca = [])) \<longrightarrow>
        res_FullPath (Suc n) w version r = Inr (CleanPath (Join [[], res_BasePath r])) \<and>
        CleanPath (Join [[], res_BasePath r]) \<noteq> [] \<and>
        (res_BasePath r = [] \<longrightarrow> res_FullPath (Suc n) w version r = Inr ''/'')) \<and>
   (Parent w r = None \<longrightarrow>
      res_FullPath (Suc n) w (Some v) r =
        Inr (CleanPath (Join [ver_BasePath v, res_BasePath r])))"
proof (intro conjI allI impI)
  fix p
  assume a: "Parent w r = Some p \<and>
        (CanonicalAction w p = None \<or>
         (\<exists>ca. CanonicalAction w p = Some ca \<and> act_Routes ca = []))"
  then show e: "res_FullPath (Suc n) w version r = Inr (CleanPath (Join [[], res_BasePath r]))"
    by auto
  show "CleanPath (Join [[], res_BasePath r]) \<noteq> []" by (rule CleanPath_nonempty)
  show "res_FullPath (Suc n) w version r = Inr ''/''" if "res_BasePath r = []"
    using e that by (simp add: CleanPath_def)
next
  assume "Parent w r = None"
  then show "res_FullPath (Suc n) w (Some v) r =
      Inr (CleanPath (Join [ver_BasePath v, res_BasePath r]))"
    by simp
qed

theorem res_FullPath_degrades_to_own_base_path_witness:
  "Parent example_world_no_show example_child = Some (example_parent\<lparr>res_Actions := []\<rparr>) \<and>
   CanonicalAction example_world_no_show (example_parent\<lparr>res_Actions := []\<rparr>) = None \<and>
   res_FullPath 1 example_world_no_show None example_child = Inr ''/children'' \<and>
   Parent example_world example_parent = None \<and>
   res_FullPath 1 example_world (Some example_v2) example_parent = Inr ''/:tenant/parents''"
proof -
  have p: "Parent example_world_no_show example_child =
      Some (example_parent\<lparr>res_Actions := []\<rparr>)"
    by (simp add: Parent_def example_world_no_show_def example_world_def example_child_def)
  have c: "CanonicalAction example_world_no_show (example_parent\<lparr>res_Actions := []\<rparr>) = None"
    by (simp add: CanonicalAction_def)
  have j: "CleanPath (Join [[], res_BasePath example_child]) = ''/children''"
    by code_simp
  have 1: "res_FullPath 1 example_world_no_show None example_child = Inr ''/children''"
    using res_FullPath_degrades_to_own_base_path
      [of example_world_no_show example_child 0 None] p c j
    by simp
  have q: "Parent example_world example_parent = None"
    by (simp add: Parent_def example_parent_def)
  have k: "CleanPath (Join [ver_BasePath example_v2, res_BasePath example_parent]) =
      ''/:tenant/parents''"
    by code_simp
  have 2: "res_FullPath 1 example_world (Some example_v2) example_parent =
      Inr ''/:tenant/parents''"
    using res_FullPath_degrades_to_own_base_path
      [of example_world example_parent 0 None example_v2] q k
    by simp
  from p c 1 q 2 show ?thesis by blast
qed


section \<open>Properties of finalization\<close>

lemma att_names_child: "k \<in> att_names ps \<longleftrightarrow> att_child ps k \<noteq> None"
  by (auto simp: att_names_def att_child_def map_of_eq_None_iff)

lemma extends_refl: "extends ps ps"
  by (simp add: extends_def)

lemma extends_names: "extends a b \<Longrightarrow> att_names a \<subseteq> att_names b"
  by (simp add: extends_def)

lemma extends_old: "extends a b \<Longrightarrow> k \<in> att_names a \<Longrightarrow> att_child b k = att_child a k"
  by (simp add: extends_def)

lemma extends_new:
  "extends a b \<Longrightarrow> k \<in> att_names b \<Longrightarrow> k \<notin> att_names a \<Longrightarrow>
     att_child b k = Some (AttributeDefinition (Some String) [])"
  by (simp add: extends_def)

lemma extends_nil: "extends a b \<Longrightarrow> b = None \<Longrightarrow> a = None"
  by (simp add: extends_def)

lemma extends_trans:
  assumes ab: "extends a b" and bc: "extends b c"
  shows "extends a c"
  unfolding extends_def
proof (intro conjI ballI impI)
  show "att_names a \<subseteq> att_names c"
    using extends_names [OF ab] extends_names [OF bc] by blast
  show "att_child c k = att_child a k" if "k \<in> att_names a" for k
  proof -
    from that extends_names [OF ab] have kb: "k \<in> att_names b" by blast
    have "att_child c k = att_child b k" using bc kb by (rule extends_old)
    also have "att_child b k = att_child a k" using ab that by (rule extends_old)
    finally show ?thesis .
  qed
  show "att_child c k = Some (AttributeDefinition (Some String) [])"
    if "k \<in> att_names c - att_names a" for k
  proof (cases "k \<in> att_names b")
    case True
    from that have "k \<notin> att_names a" by simp
    with ab True have "att_child b k = Some (AttributeDefinition (Some String) [])"
      by (rule extends_new)
    moreover have "att_child c k = att_child b k" using bc True by (rule extends_old)
    ultimately show ?thesis by simp
  next
    case False
    from that have "k \<in> att_names c" by simp
    with bc show ?thesis using False by (rule extends_new)
  qed
  show "a = None" if "c = None"
    using extends_nil [OF ab] extends_nil [OF bc] that by blast
qed

lemma act_extends_refl: "act_extends a a"
  by (simp add: act_extends_def extends_refl)

lemma act_extends_trans:
  assumes "act_extends a b" "act_extends b c"
  shows "act_extends a c"
proof -
  from assms have e: "extends (act_Params a) (act_Params b)" "extends (act_Params b) (act_Params c)"
    by (simp_all add: act_extends_def)
  then have 1: "extends (act_Params a) (act_Params c)" by (rule extends_trans)
  have 2: "act_QueryParams c = act_QueryParams a" if "act_Params c = None"
  proof -
    from e(2) that have "act_Params b = None" by (rule extends_nil)
    with that assms show ?thesis by (simp add: act_extends_def)
  qed
  from assms 1 2 show ?thesis by (simp add: act_extends_def)
qed

lemma evolves_Design: "evolves w w' \<Longrightarrow> Design w' = Design w"
  by (simp add: evolves_def)

lemma evolves_resources: "evolves w w' \<Longrightarrow> resources w' = resources w"
  by (simp add: evolves_def)

lemma evolves_actions: "evolves w w' \<Longrightarrow> rel_option act_extends (actions w q) (actions w' q)"
  by (simp add: evolves_def)

lemma evolves_refl: "evolves w w"
  by (simp add: evolves_def act_extends_refl option.rel_refl)

lemma evolves_trans:
  assumes "evolves a b" "evolves b c"
  shows "evolves a c"
proof -
  have "rel_option act_extends (actions a q) (actions c q)" for q
  proof -
    from assms have 1: "rel_option act_extends (actions a q) (actions b q)"
      and 2: "rel_option act_extends (actions b q) (actions c q)"
      by (simp_all add: evolves_actions)
    show ?thesis
    proof (cases "actions a q")
      case None
      with 1 have "actions b q = None" by (cases "actions b q") auto
      with 2 have "actions c q = None" by (cases "actions c q") auto
      with None show ?thesis by simp
    next
      case (Some x)
      with 1 obtain y where y: "actions b q = Some y" "act_extends x y"
        by (cases "actions b q") auto
      with 2 obtain z where z: "actions c q = Some z" "act_extends y z"
        by (cases "actions c q") auto
      with Some y show ?thesis by (auto intro: act_extends_trans)
    qed
  qed
  with evolves_Design [OF assms(1)] evolves_Design [OF assms(2)]
    evolves_resources [OF assms(1)] evolves_resources [OF assms(2)]
  show ?thesis by (simp add: evolves_def)
qed

lemma changes_only_refl: "changes_only p w w"
  by (simp add: changes_only_def evolves_refl)

lemma changes_only_trans:
  assumes "changes_only p a b" "changes_only p b c"
  shows "changes_only p a c"
proof -
  from assms have "evolves a b" "evolves b c" by (simp_all add: changes_only_def)
  then have "evolves a c" by (rule evolves_trans)
  moreover from assms have "\<forall>q. q \<noteq> p \<longrightarrow> actions c q = actions a q"
    by (simp add: changes_only_def)
  ultimately show ?thesis by (simp add: changes_only_def)
qed

lemma evolves_Some:
  assumes "evolves w w'" "actions w q = Some a"
  shows "\<exists>a'. actions w' q = Some a' \<and> act_extends a a'"
  using evolves_actions [OF assms(1), of q] assms(2) by (cases "actions w' q") simp_all

lemma evolves_None:
  assumes "evolves w w'" "actions w q = None"
  shows "actions w' q = None"
  using evolves_actions [OF assms(1), of q] assms(2) by (cases "actions w' q") simp_all

lemma evolves_Some_rev:
  assumes "evolves w w'" "actions w' q = Some a'"
  shows "\<exists>a. actions w q = Some a \<and> act_extends a a'"
  using evolves_actions [OF assms(1), of q] assms(2) by (cases "actions w q") simp_all

lemma Parent_evolves: "evolves w w' \<Longrightarrow> Parent w' r = Parent w r"
  by (simp add: Parent_def evolves_Design evolves_resources split: option.splits)

lemma owning_resource_evolves:
  assumes "evolves w w'"
  shows "owning_resource w' r = owning_resource w r"
proof (cases "actions w (rt_Parent r)")
  case None
  with assms have "actions w' (rt_Parent r) = None" using evolves_None by blast
  with None show ?thesis by (simp add: owning_resource_def)
next
  case (Some a)
  with assms obtain a' where "actions w' (rt_Parent r) = Some a'" "act_extends a a'"
    using evolves_Some by blast
  with Some evolves_resources [OF assms] show ?thesis
    by (simp add: owning_resource_def act_extends_def)
qed

lemma CanonicalAction_evolves:
  assumes "evolves w w'"
  shows "rel_option act_extends (CanonicalAction w p) (CanonicalAction w' p)"
proof -
  define name where "name = (if res_CanonicalActionName p = [] then ''show''
                  else res_CanonicalActionName p)"
  show ?thesis
  proof (cases "map_of (res_Actions p) name")
    case None
    then show ?thesis by (simp add: CanonicalAction_def name_def)
  next
    case (Some ca)
    from assms have "rel_option act_extends (actions w ca) (actions w' ca)"
      by (rule evolves_actions)
    with Some show ?thesis by (simp add: CanonicalAction_def name_def)
  qed
qed

lemma FullPath_evolves:
  assumes "evolves w w'"
  shows "res_FullPath n w' ver r = res_FullPath n w ver r \<and>
         route_FullPath n w' ver rt = route_FullPath n w ver rt"
proof (induction n arbitrary: r rt)
  case 0
  then show ?case by simp
next
  case (Suc n)
  have res: "res_FullPath (Suc n) w' ver r = res_FullPath (Suc n) w ver r"
  proof (cases "Parent w r")
    case None
    with assms show ?thesis by (simp add: Parent_evolves)
  next
    case (Some p)
    note par = Some
    from assms have c: "rel_option act_extends (CanonicalAction w p) (CanonicalAction w' p)"
      by (rule CanonicalAction_evolves)
    show ?thesis
    proof (cases "CanonicalAction w p")
      case None
      with c have "CanonicalAction w' p = None" by (cases "CanonicalAction w' p") auto
      with None par assms show ?thesis by (simp add: Parent_evolves)
    next
      case (Some ca)
      with c obtain ca' where ca': "CanonicalAction w' p = Some ca'" "act_extends ca ca'"
        by (cases "CanonicalAction w' p") auto
      then have rts: "act_Routes ca' = act_Routes ca" by (simp add: act_extends_def)
      show ?thesis
      proof (cases "act_Routes ca")
        case Nil
        with Some ca' rts par assms show ?thesis by (simp add: Parent_evolves)
      next
        case (Cons route0 rest)
        from Suc have "route_FullPath n w' ver route0 = route_FullPath n w ver route0" by blast
        with Cons Some ca' rts par assms show ?thesis by (simp add: Parent_evolves)
      qed
    qed
  qed
  have route: "route_FullPath (Suc n) w' ver rt = route_FullPath (Suc n) w ver rt"
  proof (cases rt)
    case None
    then show ?thesis by simp
  next
    case (Some r0)
    from assms have o: "owning_resource w' r0 = owning_resource w r0"
      by (rule owning_resource_evolves)
    show ?thesis
    proof (cases "owning_resource w r0")
      case None
      with o Some show ?thesis by simp
    next
      case res: (Some res0)
      from Suc have "res_FullPath n w' ver res0 = res_FullPath n w ver res0" by blast
      with o Some res show ?thesis by simp
    qed
  qed
  from res route show ?case by blast
qed

lemma route_Params_evolves:
  "evolves w w' \<Longrightarrow> route_Params n w' ver rt = route_Params n w ver rt"
  by (simp add: route_Params_def FullPath_evolves)

lemma path_param_names_evolves:
  "evolves w w' \<Longrightarrow> act_Routes a' = act_Routes a \<Longrightarrow>
     path_param_names n w' ver a' = path_param_names n w ver a"
  by (simp add: path_param_names_def route_param_set_def route_Params_evolves)

lemma all_path_param_names_evolves:
  "evolves w w' \<Longrightarrow> act_Routes a' = act_Routes a \<Longrightarrow>
     all_path_param_names n w' a' = all_path_param_names n w a"
  by (simp add: all_path_param_names_def path_param_names_evolves evolves_Design)

lemma att_object_Object:
  "att_object (Some (AttributeDefinition (Some (Object obj)) nz)) = obj"
  by (simp add: att_object_def)

lemma att_names_Object:
  "att_names (Some (AttributeDefinition (Some (Object obj)) nz)) = fst ` set obj"
  by (simp add: att_names_def att_object_Object)

lemma att_child_Object:
  "att_child (Some (AttributeDefinition (Some (Object obj)) nz)) k = map_of obj k"
  by (simp add: att_child_def att_object_Object)

lemma att_names_None: "att_names None = {}"
  by (simp add: att_names_def att_object_def)

lemma att_names_obj: "att_object ps = obj \<Longrightarrow> att_names ps = fst ` set obj"
  by (simp add: att_names_def)

lemma att_child_obj: "att_object ps = obj \<Longrightarrow> att_child ps k = map_of obj k"
  by (simp add: att_child_def)

lemma add_wildcard_extends:
  assumes "add_wildcard wc a = Inr a'"
  shows "act_extends a a' \<and> wc \<in> att_names (act_Params a')"
proof (cases "act_Params a")
  case None
  with assms have a': "a' = a\<lparr>act_Params := Some (AttributeDefinition
                 (Some (Object [(wc, AttributeDefinition (Some String) [])])) [])\<rparr>"
    by (simp add: add_wildcard_def)
  have n: "att_names (act_Params a') = {wc}"
    unfolding a' by (simp add: att_names_Object)
  have c: "att_child (act_Params a') wc = Some (AttributeDefinition (Some String) [])"
    unfolding a' by (simp add: att_child_Object)
  have "extends (act_Params a) (act_Params a')"
    unfolding extends_def using None n c by (simp add: att_names_None a')
  moreover have "act_Routes a' = act_Routes a" "act_Parent a' = act_Parent a"
    "act_QueryParams a' = act_QueryParams a"
    unfolding a' by simp_all
  ultimately show ?thesis using n by (simp add: act_extends_def)
next
  case (Some all)
  with assms obtain obj where obj: "Type_ToObject all = Inr (Some obj)"
    by (auto simp: add_wildcard_def split: sum.splits option.splits)
  then have ao: "att_object (act_Params a) = obj"
    using Some by (simp add: Type_ToObject_Some)
  show ?thesis
  proof (cases "wc \<in> set (map fst obj)")
    case True
    with assms Some obj have "a' = a" by (simp add: add_wildcard_def)
    moreover from True ao have "wc \<in> att_names (act_Params a)" by (simp add: att_names_def)
    ultimately show ?thesis by (simp add: act_extends_refl)
  next
    case False
    with assms Some obj have a': "a' = a\<lparr>act_Params := Some (AttributeDefinition
                      (Some (Object (AList.update wc (AttributeDefinition (Some String) []) obj)))
                      (att_NonZeroAttributes all))\<rparr>"
      by (simp add: add_wildcard_def)
    have n: "att_names (act_Params a') = insert wc (fst ` set obj)"
      unfolding a' by (simp add: att_names_Object dom_update)
    have c: "att_child (act_Params a') k =
        (if k = wc then Some (AttributeDefinition (Some String) []) else map_of obj k)" for k
      unfolding a' by (simp add: att_child_Object update_conv')
    have n0: "att_names (act_Params a) = fst ` set obj" using ao by (rule att_names_obj)
    have c0: "att_child (act_Params a) k = map_of obj k" for k using ao by (rule att_child_obj)
    have "extends (act_Params a) (act_Params a')"
      unfolding extends_def
    proof (intro conjI ballI impI)
      show "att_names (act_Params a) \<subseteq> att_names (act_Params a')" using n n0 by blast
      show "att_child (act_Params a') k = att_child (act_Params a) k"
        if "k \<in> att_names (act_Params a)" for k
      proof -
        from that n0 False have "k \<noteq> wc" by auto
        then show ?thesis by (simp add: c c0)
      qed
      show "att_child (act_Params a') k = Some (AttributeDefinition (Some String) [])"
        if "k \<in> att_names (act_Params a') - att_names (act_Params a)" for k
      proof -
        from that n n0 have "k = wc" by auto
        then show ?thesis by (simp add: c)
      qed
      show "act_Params a = None" if "act_Params a' = None"
        using that unfolding a' by simp
    qed
    moreover have "act_Routes a' = act_Routes a" "act_Parent a' = act_Parent a"
      "act_QueryParams a' = act_QueryParams a"
      unfolding a' by simp_all
    ultimately show ?thesis using n by (simp add: act_extends_def)
  qed
qed

lemma act_extends_names:
  "act_extends a a' \<Longrightarrow> att_names (act_Params a) \<subseteq> att_names (act_Params a')"
  by (simp add: act_extends_def extends_names)

lemma add_wildcards_extends:
  "add_wildcards wcs a = Inr a' \<Longrightarrow> act_extends a a' \<and> set wcs \<subseteq> att_names (act_Params a')"
proof (induction wcs arbitrary: a)
  case Nil
  then show ?case by (simp add: act_extends_refl)
next
  case (Cons wc wcs)
  from Cons.prems obtain a1 where 1: "add_wildcard wc a = Inr a1"
    and 2: "add_wildcards wcs a1 = Inr a'"
    by (auto split: sum.splits)
  from add_wildcard_extends [OF 1] have e1: "act_extends a a1"
    and m1: "wc \<in> att_names (act_Params a1)" by simp_all
  from Cons.IH [OF 2] have e2: "act_extends a1 a'"
    and m2: "set wcs \<subseteq> att_names (act_Params a')" by simp_all
  from e1 e2 have "act_extends a a'" by (rule act_extends_trans)
  moreover from m1 act_extends_names [OF e2] have "wc \<in> att_names (act_Params a')" by blast
  ultimately show ?case using m2 by simp
qed

lemma changes_only_update:
  assumes "actions w p = Some a" "act_extends a a'"
  shows "changes_only p w (w\<lparr>actions := (actions w)(p \<mapsto> a')\<rparr>)"
proof -
  have "rel_option act_extends (actions w q) (((actions w)(p \<mapsto> a')) q)" for q
  proof (cases "q = p")
    case True
    with assms show ?thesis by simp
  next
    case False
    then show ?thesis by (simp add: option.rel_refl act_extends_refl)
  qed
  then show ?thesis by (simp add: changes_only_def evolves_def)
qed

lemma create_implicit_params_ok:
  assumes "create_implicit_params n p r ver w = (None, w')"
  shows "changes_only p w w' \<and>
     (\<exists>fp a'. route_FullPath n w ver r = Inr fp \<and> actions w' p = Some a' \<and>
        set (ExtractWildcards fp) \<subseteq> att_names (act_Params a'))"
proof -
  from assms obtain fp where fp: "route_FullPath n w ver r = Inr fp"
    by (cases "route_FullPath n w ver r") (simp_all add: create_implicit_params_def)
  from assms fp obtain a where a: "actions w p = Some a"
    by (cases "actions w p") (simp_all add: create_implicit_params_def)
  from assms fp a obtain a' where a': "add_wildcards (ExtractWildcards fp) a = Inr a'"
    by (cases "add_wildcards (ExtractWildcards fp) a") (simp_all add: create_implicit_params_def)
  from assms fp a a' have w': "w' = w\<lparr>actions := (actions w)(p \<mapsto> a')\<rparr>"
    by (simp add: create_implicit_params_def)
  from add_wildcards_extends [OF a'] have e: "act_extends a a'"
    and m: "set (ExtractWildcards fp) \<subseteq> att_names (act_Params a')" by simp_all
  from a e have "changes_only p w w'" unfolding w' by (rule changes_only_update)
  moreover have "actions w' p = Some a'" unfolding w' by simp
  ultimately show ?thesis using fp m by blast
qed

lemma visit_map: "visit (\<lambda>v. it (g v)) xs s = visit it (map g xs) s"
  by (induction xs arbitrary: s) (simp_all split: prod.splits option.splits)

lemma IterateVersions_visit:
  "IterateVersions d d it s = visit it (version_scopes d) s"
  by (cases "it (api_Default d) s")
     (simp add: IterateVersions_def version_scopes_def visit_map split: option.splits)

lemma visit_invariant:
  assumes "visit it xs s = (None, s')"
    and step: "\<And>x s s'. it x s = (None, s') \<Longrightarrow> S s s'"
    and refl: "\<And>s. S s s"
    and trans: "\<And>a b c. S a b \<Longrightarrow> S b c \<Longrightarrow> S a c"
  shows "S s s' \<and> (\<forall>x\<in>set xs. \<exists>s1 s2. S s s1 \<and> it x s1 = (None, s2) \<and> S s2 s')"
  using assms(1)
proof (induction xs arbitrary: s)
  case Nil
  then show ?case by (simp add: refl)
next
  case (Cons x xs)
  from Cons.prems obtain s1 where 1: "it x s = (None, s1)" and 2: "visit it xs s1 = (None, s')"
    by (cases "it x s") (auto split: option.splits)
  from step [OF 1] have s1: "S s s1" .
  from Cons.IH [OF 2] have s2: "S s1 s'"
    and cov: "\<forall>y\<in>set xs. \<exists>t1 t2. S s1 t1 \<and> it y t1 = (None, t2) \<and> S t2 s'" by simp_all
  have "S s s'" using s1 s2 by (rule trans)
  moreover have "\<exists>t1 t2. S s t1 \<and> it y t1 = (None, t2) \<and> S t2 s'" if "y \<in> set (x # xs)" for y
  proof (cases "y = x")
    case True
    with 1 s2 refl show ?thesis by blast
  next
    case False
    with that cov obtain t1 t2 where "S s1 t1" "it y t1 = (None, t2)" "S t2 s'" by auto
    with s1 trans show ?thesis by blast
  qed
  ultimately show ?case by blast
qed

lemma changes_only_evolves: "changes_only p w w' \<Longrightarrow> evolves w w'"
  by (simp add: changes_only_def)

lemma evolves_names:
  assumes "evolves w w'" "actions w p = Some a"
  shows "\<exists>a'. actions w' p = Some a' \<and> att_names (act_Params a) \<subseteq> att_names (act_Params a')"
  using evolves_Some [OF assms] act_extends_names by blast

lemma implicit_params_versions:
  assumes "IterateVersions (Design w) (Design w) (create_implicit_params n p r) w = (None, w')"
  shows "changes_only p w w' \<and>
     (\<forall>ver\<in>set (version_scopes (Design w)).
        \<exists>fp a'. route_FullPath n w ver r = Inr fp \<and> actions w' p = Some a' \<and>
          set (ExtractWildcards fp) \<subseteq> att_names (act_Params a'))"
proof -
  let ?it = "create_implicit_params n p r"
  from assms have v: "visit ?it (version_scopes (Design w)) w = (None, w')"
    by (simp add: IterateVersions_visit)
  have inv: "changes_only p w w' \<and>
     (\<forall>x\<in>set (version_scopes (Design w)).
        \<exists>s1 s2. changes_only p w s1 \<and> ?it x s1 = (None, s2) \<and> changes_only p s2 w')"
    using v
  proof (rule visit_invariant)
    show "changes_only p s s'" if "?it x s = (None, s')" for x s s'
      using create_implicit_params_ok [OF that] by blast
    show "changes_only p s s" for s by (rule changes_only_refl)
    show "changes_only p a c" if "changes_only p a b" "changes_only p b c" for a b c
      using that by (rule changes_only_trans)
  qed
  have "\<exists>fp a'. route_FullPath n w ver r = Inr fp \<and> actions w' p = Some a' \<and>
          set (ExtractWildcards fp) \<subseteq> att_names (act_Params a')"
    if "ver \<in> set (version_scopes (Design w))" for ver
  proof -
    from inv that obtain s1 s2 where s: "changes_only p w s1" "?it ver s1 = (None, s2)"
      "changes_only p s2 w'" by blast
    from create_implicit_params_ok [OF s(2)] obtain fp a2 where
      fp: "route_FullPath n s1 ver r = Inr fp" and a2: "actions s2 p = Some a2"
      and m: "set (ExtractWildcards fp) \<subseteq> att_names (act_Params a2)" by blast
    from s(1) have "route_FullPath n s1 ver r = route_FullPath n w ver r"
      using FullPath_evolves changes_only_evolves by blast
    with fp have 1: "route_FullPath n w ver r = Inr fp" by simp
    from evolves_names [OF changes_only_evolves [OF s(3)] a2] obtain a' where
      "actions w' p = Some a'" "att_names (act_Params a2) \<subseteq> att_names (act_Params a')" by blast
    with 1 m show ?thesis by blast
  qed
  with inv show ?thesis by blast
qed

lemma implicit_params_routes_ok:
  "implicit_params_routes n p routes w = Inr w' \<Longrightarrow>
     changes_only p w w' \<and>
     (\<forall>r\<in>set routes. \<forall>ver\<in>set (version_scopes (Design w)).
        \<exists>fp a'. route_FullPath n w ver r = Inr fp \<and> actions w' p = Some a' \<and>
          set (ExtractWildcards fp) \<subseteq> att_names (act_Params a'))"
proof (induction routes arbitrary: w)
  case Nil
  then show ?case by (simp add: changes_only_refl)
next
  case (Cons r rs)
  from Cons.prems obtain w1 where
    1: "IterateVersions (Design w) (Design w) (create_implicit_params n p r) w = (None, w1)"
    and 2: "implicit_params_routes n p rs w1 = Inr w'"
    by (cases "IterateVersions (Design w) (Design w) (create_implicit_params n p r) w")
       (auto split: option.splits)
  from implicit_params_versions [OF 1] have c1: "changes_only p w w1"
    and r1: "\<forall>ver\<in>set (version_scopes (Design w)).
        \<exists>fp a'. route_FullPath n w ver r = Inr fp \<and> actions w1 p = Some a' \<and>
          set (ExtractWildcards fp) \<subseteq> att_names (act_Params a')" by simp_all
  from Cons.IH [OF 2] have c2: "changes_only p w1 w'"
    and r2: "\<forall>r\<in>set rs. \<forall>ver\<in>set (version_scopes (Design w1)).
        \<exists>fp a'. route_FullPath n w1 ver r = Inr fp \<and> actions w' p = Some a' \<and>
          set (ExtractWildcards fp) \<subseteq> att_names (act_Params a')" by simp_all
  from c1 have e1: "evolves w w1" by (rule changes_only_evolves)
  from c2 have e2: "evolves w1 w'" by (rule changes_only_evolves)
  have d: "Design w1 = Design w" using e1 by (rule evolves_Design)
  have "\<exists>fp a'. route_FullPath n w ver x = Inr fp \<and> actions w' p = Some a' \<and>
          set (ExtractWildcards fp) \<subseteq> att_names (act_Params a')"
    if x: "x \<in> set (r # rs)" and ver: "ver \<in> set (version_scopes (Design w))" for x ver
  proof (cases "x \<in> set rs")
    case True
    from ver d have "ver \<in> set (version_scopes (Design w1))" by simp
    from bspec [OF bspec [OF r2 True] this] obtain fp a' where
      "route_FullPath n w1 ver x = Inr fp"
      "actions w' p = Some a'" "set (ExtractWildcards fp) \<subseteq> att_names (act_Params a')"
      by blast
    moreover have "route_FullPath n w1 ver x = route_FullPath n w ver x"
      using FullPath_evolves [OF e1] by blast
    ultimately show ?thesis by auto
  next
    case False
    with x have "x = r" by simp
    with r1 ver obtain fp a1 where fp: "route_FullPath n w ver x = Inr fp"
      and a1: "actions w1 p = Some a1"
      and m: "set (ExtractWildcards fp) \<subseteq> att_names (act_Params a1)" by blast
    from evolves_names [OF e2 a1] obtain a' where
      "actions w' p = Some a'" "att_names (act_Params a1) \<subseteq> att_names (act_Params a')" by blast
    with fp m show ?thesis by blast
  qed
  moreover from c1 c2 have "changes_only p w w'" by (rule changes_only_trans)
  ultimately show ?case by blast
qed


end
